theory Spec2Isabelle
  imports Complex_Main "HOL-Library.AList" "HOL-Library.Sublist" "HOL-Library.Multiset"
begin

section \<open>Python values shared by the scripts\<close>

text \<open>
  The exceptions that the modelled statements can raise: \<open>ValueError\<close> comes from
  \<open>np.array_split\<close> and from a thread pool without threads, \<open>ZeroDivisionError\<close> from
  float division, \<open>IndexError\<close> from indexing a list, the other three from \<open>os.listdir\<close>
  and \<open>os.makedirs\<close>.
\<close>

datatype py_error =
    ValueError
  | ZeroDivisionError
  | FileNotFoundError
  | NotADirectoryError
  | FileExistsError
  | IndexError

section \<open>The filesystem seen through \<open>os\<close>\<close>

text \<open>
  A path is the list of its components below the filesystem root, already resolved against
  the working directory. A directory keeps its entries in the order in which \<open>os.listdir\<close>
  returns them (Python leaves that order to the filesystem); \<open>map_of\<close> finds an entry by
  name. File contents are not part of the tree: what \<open>cv2\<close> makes of a file is given by
  an environment, see below.
\<close>

type_synonym path = "string list"

datatype node = File | Dir "(string \<times> node) list"

fun lookup :: "node \<Rightarrow> path \<Rightarrow> node option" where
  "lookup n [] = Some n"
| "lookup File (c # cs) = None"
| "lookup (Dir es) (c # cs) =
     (case map_of es c of None \<Rightarrow> None | Some m \<Rightarrow> lookup m cs)"

definition os_path_join :: "path \<Rightarrow> string \<Rightarrow> path" where
  \<comment> \<open>\<open>os.path.join(dir, name)\<close> for a directory entry \<open>name\<close>: one more component.\<close>
  "os_path_join p name = p @ [name]"

definition os_path_exists :: "node \<Rightarrow> path \<Rightarrow> bool" where
  "os_path_exists fs p = (lookup fs p \<noteq> None)"

definition os_path_isdir :: "node \<Rightarrow> path \<Rightarrow> bool" where
  "os_path_isdir fs p = (case lookup fs p of Some (Dir es) \<Rightarrow> True | _ \<Rightarrow> False)"

fun missing_error :: "node \<Rightarrow> path \<Rightarrow> py_error" where
  \<comment> \<open>The error of a system call on a path that does not resolve: \<open>ENOTDIR\<close> when a
      plain file stands on the way, \<open>ENOENT\<close> when a component is missing.\<close>
  "missing_error File (c # cs) = NotADirectoryError"
| "missing_error (Dir es) (c # cs) =
     (case map_of es c of None \<Rightarrow> FileNotFoundError | Some m \<Rightarrow> missing_error m cs)"
| "missing_error n [] = FileNotFoundError"

definition os_listdir :: "node \<Rightarrow> path \<Rightarrow> py_error + string list" where
  "os_listdir fs p =
     (case lookup fs p of
        None \<Rightarrow> Inl (missing_error fs p)
      | Some File \<Rightarrow> Inl NotADirectoryError
      | Some (Dir es) \<Rightarrow> Inr (map fst es))"

fun fresh_dirs :: "path \<Rightarrow> node" where
  \<comment> \<open>The chain of new, otherwise empty directories that \<open>os.makedirs\<close> creates for the
      missing tail of a path.\<close>
  "fresh_dirs [] = Dir []"
| "fresh_dirs (c # cs) = Dir [(c, fresh_dirs cs)]"

fun os_makedirs :: "node \<Rightarrow> path \<Rightarrow> py_error + node" where
  \<comment> \<open>\<open>os.makedirs(p)\<close> with \<open>exist_ok=False\<close>: the leaf must not exist, a file on the
      way is an error, missing directories are created (a new entry goes to the end of its
      parent's listing).\<close>
  "os_makedirs n [] = Inl FileExistsError"
| "os_makedirs File (c # cs) = Inl NotADirectoryError"
| "os_makedirs (Dir es) (c # cs) =
     (case map_of es c of
        None \<Rightarrow> Inr (Dir (es @ [(c, fresh_dirs cs)]))
      | Some m \<Rightarrow>
          (case os_makedirs m cs of
             Inl e \<Rightarrow> Inl e
           | Inr m' \<Rightarrow> Inr (Dir (AList.update c m' es))))"

definition ensure_dir :: "node \<Rightarrow> path \<Rightarrow> py_error + node" where
  \<comment> \<open>The idiom \<^verbatim>\<open>if not os.path.exists(p): os.makedirs(p)\<close>.\<close>
  "ensure_dir fs p = (if \<not> os_path_exists fs p then os_makedirs fs p else Inr fs)"

section \<open>Discovery\<close>

text \<open>
  \<open>get_all_image_paths\<close> of \<open>parallel_process.py\<close> (lines 21 to 50). Lines 54 to 67 of
  \<open>distributed_process.py\<close> are the same statements written inline in \<open>main\<close>, with the
  constants \<open>INPUT_DIR\<close> and \<open>OUTPUT_DIR\<close> for the two parameters.
\<close>

type_synonym work_item = "path \<times> path"

fun class_folder_loop ::
  "node \<Rightarrow> path \<Rightarrow> path \<Rightarrow> string list \<Rightarrow> work_item list
     \<Rightarrow> py_error + (work_item list \<times> node)" where
  \<comment> \<open>The loop \<^verbatim>\<open>for class_folder in os.listdir(input_dir)\<close> over the names still to
      visit, with the list built so far.\<close>
  "class_folder_loop fs input_dir output_dir [] image_paths_list = Inr (image_paths_list, fs)"
| "class_folder_loop fs input_dir output_dir (class_folder # folders) image_paths_list =
     (let class_folder_path = os_path_join input_dir class_folder in
      if os_path_isdir fs class_folder_path then
        (let output_class_folder = os_path_join output_dir class_folder in
         case ensure_dir fs output_class_folder of
           Inl e \<Rightarrow> Inl e
         | Inr fs' \<Rightarrow>
             (case os_listdir fs' class_folder_path of
                Inl e \<Rightarrow> Inl e
              | Inr image_names \<Rightarrow>
                  class_folder_loop fs' input_dir output_dir folders
                    (image_paths_list @
                       map (\<lambda>image_name. (os_path_join class_folder_path image_name,
                                           os_path_join output_class_folder image_name))
                         image_names)))
      else class_folder_loop fs input_dir output_dir folders image_paths_list)"

definition get_all_image_paths ::
  "node \<Rightarrow> path \<Rightarrow> path \<Rightarrow> py_error + (work_item list \<times> node)" where
  "get_all_image_paths fs input_dir output_dir =
     (case ensure_dir fs output_dir of
        Inl e \<Rightarrow> Inl e
      | Inr fs' \<Rightarrow>
          (case os_listdir fs' input_dir of
             Inl e \<Rightarrow> Inl e
           | Inr class_folders \<Rightarrow>
               class_folder_loop fs' input_dir output_dir class_folders []))"

definition INPUT_DIR :: path where
  "INPUT_DIR = [''content'', ''data_set'']"

definition OUTPUT_DIR_parallel :: "path \<Rightarrow> path" where
  \<comment> \<open>\<open>'output_parallel'\<close>, relative to the working directory \<open>cwd\<close>.\<close>
  "OUTPUT_DIR_parallel cwd = cwd @ [''output_parallel'']"

definition OUTPUT_DIR_distributed :: "path \<Rightarrow> path" where
  "OUTPUT_DIR_distributed cwd = cwd @ [''output_distributed'']"

section \<open>Transform and the observable events\<close>

text \<open>
  The \<open>cv2\<close> calls are outside the repository. For each work item the environment says
  how they go: \<open>imread\<close> returns \<open>None\<close>, one of the calls raises an exception (a subclass
  of \<open>Exception\<close>, with its message), or the image is read, resized, watermarked and
  written.
\<close>

datatype cv2_outcome = NotDecoded | CvError string | Processed

type_synonym cv2_env = "work_item \<Rightarrow> cv2_outcome"

datatype message =
    ErrorProcessing path string
  | WarningCouldNotRead path
  | NodeStarting nat
  | NodeFinished nat real
  | TotalImagesFound nat
  | RunningSequential
  | SequentialTime real
  | StartingSimulation int
  | SummaryHeader
  | NodeLine nat nat real
  | TotalDistributedTime real
  | Efficiency real
  | Discovering
  | FoundImages nat
  | Testing int
  | TimeTaken real
  | TableHeader
  | TableRow int real real

datatype event =
    ImreadCall path
  | FileWritten path
  | Publish nat "nat \<times> real"
  | Print message

definition process_single_image :: "cv2_env \<Rightarrow> work_item \<Rightarrow> event list" where
  \<comment> \<open>\<open>distributed_process.py\<close>, lines 19 to 29: an undecodable image is passed over in
      silence, an exception is caught and printed; nothing is raised to the caller.\<close>
  "process_single_image env item =
     (case item of (input_path, output_path) \<Rightarrow>
        (case env item of
           NotDecoded \<Rightarrow> [ImreadCall input_path]
         | CvError e \<Rightarrow> [ImreadCall input_path, Print (ErrorProcessing input_path e)]
         | Processed \<Rightarrow> [ImreadCall input_path, FileWritten output_path]))"

definition process_image :: "cv2_env \<Rightarrow> work_item \<Rightarrow> event list" where
  \<comment> \<open>\<open>parallel_process.py\<close>, lines 53 to 80: as above, with a warning for an undecodable
      image.\<close>
  "process_image env paths =
     (case paths of (input_path, output_path) \<Rightarrow>
        (case env paths of
           NotDecoded \<Rightarrow> [ImreadCall input_path, Print (WarningCouldNotRead input_path)]
         | CvError e \<Rightarrow> [ImreadCall input_path, Print (ErrorProcessing input_path e)]
         | Processed \<Rightarrow> [ImreadCall input_path, FileWritten output_path]))"

definition py_truediv :: "real \<Rightarrow> real \<Rightarrow> py_error + real" where
  \<comment> \<open>Python's \<open>a / b\<close> on floats, read as real numbers: a zero divisor raises.\<close>
  "py_truediv a b = (if b = 0 then Inl ZeroDivisionError else Inr (a / b))"

section \<open>The partition step: \<open>np.array_split\<close>\<close>

text \<open>
  \<open>distributed_process.py\<close>, line 84, divides the work with
  \<^verbatim>\<open>image_subsets = np.array_split(all_image_paths, NUM_NODES)\<close>.
  The function belongs to numpy and is not part of the repository's sources.
\<close>

definition section_sizes :: "nat \<Rightarrow> nat \<Rightarrow> nat list" where
  \<comment> \<open>Modelled from the spec: numpy's \<open>array_split\<close> is absent from the sources. Section 4.2:
      \<open>base = L // n\<close>, \<open>remainder = L % n\<close>, the first \<open>remainder\<close> chunks get \<open>base + 1\<close>
      items and the rest get \<open>base\<close>. The leading 0 is numpy's first division point.\<close>
  "section_sizes Ntotal Nsections =
     (let Neach_section = Ntotal div Nsections;
          extras = Ntotal mod Nsections
      in [0] @ replicate extras (Neach_section + 1)
             @ replicate (Nsections - extras) Neach_section)"

fun cumsum :: "nat \<Rightarrow> nat list \<Rightarrow> nat list" where
  \<comment> \<open>Running totals, started at \<open>acc\<close>.\<close>
  "cumsum acc [] = []"
| "cumsum acc (x # xs) = (acc + x) # cumsum (acc + x) xs"

definition slice :: "'a list \<Rightarrow> nat \<Rightarrow> nat \<Rightarrow> 'a list" where
  \<comment> \<open>Python's \<open>xs[st:end]\<close> for non-negative bounds.\<close>
  "slice xs st end = take (end - st) (drop st xs)"

definition array_split :: "'a list \<Rightarrow> int \<Rightarrow> py_error + 'a list list" where
  \<comment> \<open>Modelled from the spec: numpy's \<open>array_split\<close> is absent from the sources. Section 4.2:
      chunks are laid out in original order, chunk \<open>i\<close> being the slice between division
      points \<open>i\<close> and \<open>i + 1\<close>; a section count that is not positive is rejected (numpy raises
      \<open>ValueError\<close>, the spec calls the failure InvalidConfiguration).\<close>
  "array_split ary indices_or_sections =
     (if indices_or_sections \<le> 0 then Inl ValueError
      else
        let Nsections = nat indices_or_sections;
            div_points = cumsum 0 (section_sizes (length ary) Nsections)
        in Inr (map (\<lambda>i. slice ary (div_points ! i) (div_points ! (i + 1)))
                  [0..<Nsections]))"

section \<open>The distributed simulation\<close>

record clock =
  seq_start_time :: real
  seq_end_time :: real
  master_start_time :: real
  master_end_time :: real
  node_start_time :: "nat \<Rightarrow> real"
  node_end_time :: "nat \<Rightarrow> real"

definition node_task :: "cv2_env \<Rightarrow> clock \<Rightarrow> nat \<Rightarrow> work_item list \<Rightarrow> event list" where
  \<comment> \<open>\<open>distributed_process.py\<close>, lines 32 to 48: everything one node does, in order.\<close>
  "node_task env clk node_id image_subset =
     (let start_time = node_start_time clk node_id;
          end_time = node_end_time clk node_id;
          total_time = end_time - start_time
      in [Print (NodeStarting node_id)]
         @ concat (map (process_single_image env) image_subset)
         @ [Publish node_id (length image_subset, total_time),
            Print (NodeFinished node_id total_time)])"

fun run_nodes :: "nat list \<Rightarrow> event list list \<Rightarrow> event list" where
  \<comment> \<open>The processes run side by side between \<open>start\<close> and \<open>join\<close>. The schedule names the
      process that makes the next step; a name that is out of range or belongs to a
      finished process passes. \<open>join\<close> waits for every process, so once the schedule is
      used up what is left of each process still runs.\<close>
  "run_nodes [] procs = concat procs"
| "run_nodes (i # sched) procs =
     (if i < length procs then
        (case procs ! i of
           [] \<Rightarrow> run_nodes sched procs
         | e # rest \<Rightarrow> e # run_nodes sched (procs[i := rest]))
      else run_nodes sched procs)"

type_synonym results = "(nat \<times> (nat \<times> real)) list"

fun store :: "results \<Rightarrow> event \<Rightarrow> results" where
  \<comment> \<open>\<^verbatim>\<open>results_dict[node_id] = {...}\<close> on a dictionary in insertion order.\<close>
  "store d (Publish node_id result) = AList.update node_id result d"
| "store d _ = d"

record run =
  raised :: "py_error option"
  trace :: "event list"

record distributed_run = run +
  results_dict :: results

definition summary_lines :: "results \<Rightarrow> event list" where
  \<comment> \<open>Lines 113 and 114. Keys of a dictionary are distinct, so \<open>sorted\<close> orders the
      \<open>(node_id, result)\<close> pairs by \<open>node_id\<close>.\<close>
  "summary_lines d =
     map (\<lambda>(node_id, result). Print (NodeLine node_id (fst result) (snd result)))
       (sort_key fst d)"

definition main_distributed ::
  "node \<Rightarrow> path \<Rightarrow> cv2_env \<Rightarrow> clock \<Rightarrow> int \<Rightarrow> nat list \<Rightarrow> distributed_run" where
  \<comment> \<open>\<open>main\<close> of \<open>distributed_process.py\<close> with the number of nodes as a parameter.
      The trace lists what the master does up to \<open>start\<close>, what the nodes do, and what
      the master does after \<open>join\<close>; an uncaught exception ends it. \<open>array_split\<close> returns
      \<open>num_nodes\<close> chunks, so every \<open>image_subsets[i]\<close> is in range.\<close>
  "main_distributed fs cwd env clk num_nodes sched =
     (case get_all_image_paths fs INPUT_DIR (OUTPUT_DIR_distributed cwd) of
        Inl e \<Rightarrow> \<lparr>raised = Some e, trace = [], results_dict = []\<rparr>
      | Inr (all_image_paths, fs') \<Rightarrow>
          (let sequential_time = seq_end_time clk - seq_start_time clk;
               baseline =
                 [Print (TotalImagesFound (length all_image_paths)), Print RunningSequential]
                 @ concat (map (process_single_image env) all_image_paths)
                 @ [Print (SequentialTime sequential_time),
                    Print (StartingSimulation num_nodes)]
           in case array_split all_image_paths num_nodes of
                Inl e \<Rightarrow> \<lparr>raised = Some e, trace = baseline, results_dict = []\<rparr>
              | Inr image_subsets \<Rightarrow>
                  (let processes =
                         map (\<lambda>i. node_task env clk (i + 1) (image_subsets ! i))
                           [0..<nat num_nodes];
                       nodes = run_nodes sched processes;
                       d = foldl store [] nodes;
                       total_distributed_time = master_end_time clk - master_start_time clk;
                       summary =
                         [Print SummaryHeader] @ summary_lines d
                         @ [Print (TotalDistributedTime total_distributed_time)]
                   in case py_truediv sequential_time total_distributed_time of
                        Inl e \<Rightarrow>
                          \<lparr>raised = Some e, trace = baseline @ nodes @ summary,
                           results_dict = d\<rparr>
                      | Inr efficiency \<Rightarrow>
                          \<lparr>raised = None,
                           trace = baseline @ nodes @ summary @ [Print (Efficiency efficiency)],
                           results_dict = d\<rparr>)))"

definition NUM_NODES :: int where
  \<comment> \<open>The number of nodes that the script is configured with.\<close>
  "NUM_NODES = 2"

section \<open>The thread-pool sweep\<close>

record sweep_clock =
  start_time :: "nat \<Rightarrow> real"
  end_time :: "nat \<Rightarrow> real"

fun pool_steps :: "nat list \<Rightarrow> event list list \<Rightarrow> event list list \<Rightarrow> event list" where
  \<comment> \<open>\<open>executor.map\<close> on a pool: \<open>threads\<close> holds what is left of the task of each thread,
      \<open>pending\<close> the tasks not yet taken, in submission order. The schedule names the thread
      that moves: it makes the next step of its task or, when it has none, takes the next
      pending task. Leaving the \<open>with\<close> block waits for all tasks.\<close>
  "pool_steps [] threads pending = concat threads @ concat pending"
| "pool_steps (i # sched) threads pending =
     (if i < length threads then
        (case threads ! i of
           e # rest \<Rightarrow> e # pool_steps sched (threads[i := rest]) pending
         | [] \<Rightarrow>
             (case pending of
                [] \<Rightarrow> pool_steps sched threads pending
              | task # tasks \<Rightarrow> pool_steps sched (threads[i := task]) tasks))
      else pool_steps sched threads pending)"

definition WORKER_COUNTS :: "int list" where
  "WORKER_COUNTS = [1, 2, 4, 8]"

fun sweep ::
  "cv2_env \<Rightarrow> sweep_clock \<Rightarrow> (nat \<Rightarrow> nat list) \<Rightarrow> work_item list \<Rightarrow> nat \<Rightarrow> int list
     \<Rightarrow> (int \<times> real) list \<Rightarrow> event list \<times> (py_error + (int \<times> real) list)" where
  \<comment> \<open>Lines 92 to 107: pass number \<open>k\<close> of the loop over the worker counts, with the
      \<open>results\<close> list built so far; \<open>scheds k\<close> is the thread schedule of that pass. A pool
      of no threads is refused by \<open>ThreadPoolExecutor\<close>.\<close>
  "sweep env clk scheds all_image_paths k [] results = ([], Inr results)"
| "sweep env clk scheds all_image_paths k (num_workers # counts) results =
     (if num_workers \<le> 0 then ([Print (Testing num_workers)], Inl ValueError)
      else
        let total_time = end_time clk k - start_time clk k;
            pass = [Print (Testing num_workers)]
                   @ pool_steps (scheds k) (replicate (nat num_workers) [])
                       (map (process_image env) all_image_paths)
                   @ [Print (TimeTaken total_time)];
            (later, outcome) =
              sweep env clk scheds all_image_paths (k + 1) counts
                (results @ [(num_workers, total_time)])
        in (pass @ later, outcome))"

fun speedup_rows :: "real \<Rightarrow> (int \<times> real) list \<Rightarrow> event list \<times> py_error option" where
  \<comment> \<open>Lines 117 to 123: the rows printed until the loop ends or a division raises.\<close>
  "speedup_rows baseline_time [] = ([], None)"
| "speedup_rows baseline_time ((workers, time_taken) # rest) =
     (case py_truediv baseline_time time_taken of
        Inl e \<Rightarrow> ([], Some e)
      | Inr speedup \<Rightarrow>
          (let (rows, err) = speedup_rows baseline_time rest
           in (Print (TableRow workers time_taken speedup) # rows, err)))"

definition main_parallel ::
  "node \<Rightarrow> path \<Rightarrow> cv2_env \<Rightarrow> sweep_clock \<Rightarrow> (nat \<Rightarrow> nat list) \<Rightarrow> int list \<Rightarrow> run" where
  \<comment> \<open>\<open>main\<close> of \<open>parallel_process.py\<close> with \<open>WORKER_COUNTS\<close> as a parameter.\<close>
  "main_parallel fs cwd env clk scheds counts =
     (case get_all_image_paths fs INPUT_DIR (OUTPUT_DIR_parallel cwd) of
        Inl e \<Rightarrow> \<lparr>raised = Some e, trace = [Print Discovering]\<rparr>
      | Inr (all_image_paths, fs') \<Rightarrow>
          (let (passes, outcome) = sweep env clk scheds all_image_paths 0 counts [];
               found = [Print Discovering, Print (FoundImages (length all_image_paths))]
           in case outcome of
                Inl e \<Rightarrow> \<lparr>raised = Some e, trace = found @ passes\<rparr>
              | Inr [] \<Rightarrow>
                  \<lparr>raised = Some IndexError, trace = found @ passes @ [Print TableHeader]\<rparr>
              | Inr ((w, baseline_time) # rest) \<Rightarrow>
                  (let (rows, err) = speedup_rows baseline_time ((w, baseline_time) # rest)
                   in \<lparr>raised = err, trace = found @ passes @ [Print TableHeader] @ rows\<rparr>)))"

section \<open>Observations on a trace\<close>

fun imread_calls :: "event list \<Rightarrow> path list" where
  \<comment> \<open>The input paths on which Transform was started, in order.\<close>
  "imread_calls [] = []"
| "imread_calls (ImreadCall p # tr) = p # imread_calls tr"
| "imread_calls (e # tr) = imread_calls tr"

fun files_written :: "event list \<Rightarrow> path list" where
  "files_written [] = []"
| "files_written (FileWritten p # tr) = p # files_written tr"
| "files_written (e # tr) = files_written tr"

fun published :: "event list \<Rightarrow> results" where
  \<comment> \<open>The writes to the result store, in the order in which they happen.\<close>
  "published [] = []"
| "published (Publish node_id result # tr) = (node_id, result) # published tr"
| "published (e # tr) = published tr"

fun nodes_started :: "event list \<Rightarrow> nat list" where
  "nodes_started [] = []"
| "nodes_started (Print (NodeStarting node_id) # tr) = node_id # nodes_started tr"
| "nodes_started (e # tr) = nodes_started tr"

fun reported :: "event list \<Rightarrow> (nat \<times> nat \<times> real) list" where
  \<comment> \<open>The per-node lines of the summary: node, count, time.\<close>
  "reported [] = []"
| "reported (Print (NodeLine node_id c t) # tr) = (node_id, c, t) # reported tr"
| "reported (e # tr) = reported tr"

fun efficiencies :: "event list \<Rightarrow> real list" where
  "efficiencies [] = []"
| "efficiencies (Print (Efficiency x) # tr) = x # efficiencies tr"
| "efficiencies (e # tr) = efficiencies tr"

fun table_rows :: "event list \<Rightarrow> (int \<times> real \<times> real) list" where
  \<comment> \<open>The rows of the speedup table: workers, time, speedup.\<close>
  "table_rows [] = []"
| "table_rows (Print (TableRow w t s) # tr) = (w, t, s) # table_rows tr"
| "table_rows (e # tr) = table_rows tr"

section \<open>Closed forms used in the proofs\<close>

definition div_point :: "nat \<Rightarrow> nat \<Rightarrow> nat \<Rightarrow> nat" where
  \<comment> \<open>Closed form of division point \<open>i\<close> of a list of \<open>L\<close> items cut into \<open>N\<close> sections.\<close>
  "div_point L N i = i * (L div N) + min i (L mod N)"

definition baseline :: "cv2_env \<Rightarrow> clock \<Rightarrow> int \<Rightarrow> work_item list \<Rightarrow> event list" where
  \<comment> \<open>What \<open>main\<close> of \<open>distributed_process.py\<close> does between Discovery and the
      partition step.\<close>
  "baseline env clk n items =
     [Print (TotalImagesFound (length items)), Print RunningSequential]
     @ concat (map (process_single_image env) items)
     @ [Print (SequentialTime (seq_end_time clk - seq_start_time clk)),
        Print (StartingSimulation n)]"

definition node_processes ::
  "cv2_env \<Rightarrow> clock \<Rightarrow> int \<Rightarrow> work_item list list \<Rightarrow> event list list" where
  \<comment> \<open>The processes that \<open>main\<close> starts, process \<open>i\<close> running node \<open>i + 1\<close>.\<close>
  "node_processes env clk n chunks =
     map (\<lambda>i. node_task env clk (i + 1) (chunks ! i)) [0..<nat n]"

definition node_result :: "clock \<Rightarrow> work_item list list \<Rightarrow> nat \<Rightarrow> nat \<times> (nat \<times> real)" where
  \<comment> \<open>The entry that process \<open>i\<close> leaves in the result store.\<close>
  "node_result clk chunks i =
     (i + 1, (length (chunks ! i), node_end_time clk (i + 1) - node_start_time clk (i + 1)))"

definition node_line :: "clock \<Rightarrow> work_item list list \<Rightarrow> nat \<Rightarrow> nat \<times> nat \<times> real" where
  \<comment> \<open>The summary line of process \<open>i\<close>.\<close>
  "node_line clk chunks i =
     (i + 1, length (chunks ! i), node_end_time clk (i + 1) - node_start_time clk (i + 1))"

section \<open>A small input tree\<close>

text \<open>
  Two class folders with three images and a plain file beside them; the first image cannot
  be decoded. The program runs in \<open>/home\<close>.
\<close>

definition example_fs :: node where
  "example_fs =
     Dir [(''content'',
           Dir [(''data_set'',
                 Dir [(''cats'', Dir [(''a.png'', File), (''b.png'', File)]),
                      (''readme.txt'', File),
                      (''dogs'', Dir [(''c.png'', File)])])]),
          (''home'', Dir [])]"

definition example_cwd :: path where
  "example_cwd = [''home'']"

definition example_items :: "work_item list" where
  "example_items =
     [([''content'', ''data_set'', ''cats'', ''a.png''],
       [''home'', ''output_distributed'', ''cats'', ''a.png'']),
      ([''content'', ''data_set'', ''cats'', ''b.png''],
       [''home'', ''output_distributed'', ''cats'', ''b.png'']),
      ([''content'', ''data_set'', ''dogs'', ''c.png''],
       [''home'', ''output_distributed'', ''dogs'', ''c.png''])]"

definition example_env :: cv2_env where
  "example_env item =
     (if fst item = [''content'', ''data_set'', ''cats'', ''a.png''] then NotDecoded
      else Processed)"

definition example_clock :: clock where
  "example_clock =
     \<lparr>seq_start_time = 0, seq_end_time = 4, master_start_time = 4, master_end_time = 6,
      node_start_time = (\<lambda>node_id. 4), node_end_time = (\<lambda>node_id. 5)\<rparr>"

definition example_fs' :: node where
  \<comment> \<open>The example tree after Discovery of the distributed script.\<close>
  "example_fs' =
     Dir [(''content'',
           Dir [(''data_set'',
                 Dir [(''cats'', Dir [(''a.png'', File), (''b.png'', File)]),
                      (''readme.txt'', File),
                      (''dogs'', Dir [(''c.png'', File)])])]),
          (''home'',
           Dir [(''output_distributed'', Dir [(''cats'', Dir []), (''dogs'', Dir [])])])]"

definition example_chunks :: "work_item list list" where
  \<comment> \<open>The example items, split for two nodes.\<close>
  "example_chunks =
     [[([''content'', ''data_set'', ''cats'', ''a.png''],
        [''home'', ''output_distributed'', ''cats'', ''a.png'']),
       ([''content'', ''data_set'', ''cats'', ''b.png''],
        [''home'', ''output_distributed'', ''cats'', ''b.png''])],
      [([''content'', ''data_set'', ''dogs'', ''c.png''],
        [''home'', ''output_distributed'', ''dogs'', ''c.png''])]]"

definition example_clock_stopped :: clock where
  \<comment> \<open>A clock that does not advance between \<open>start\<close> and \<open>join\<close>.\<close>
  "example_clock_stopped =
     \<lparr>seq_start_time = 0, seq_end_time = 4, master_start_time = 4, master_end_time = 4,
      node_start_time = (\<lambda>node_id. 4), node_end_time = (\<lambda>node_id. 4)\<rparr>"

definition example_found_parallel :: "work_item list \<times> node" where
  \<comment> \<open>What Discovery of the thread-pool script returns on the example tree.\<close>
  "example_found_parallel =
     ([([''content'', ''data_set'', ''cats'', ''a.png''],
        [''home'', ''output_parallel'', ''cats'', ''a.png'']),
       ([''content'', ''data_set'', ''cats'', ''b.png''],
        [''home'', ''output_parallel'', ''cats'', ''b.png'']),
       ([''content'', ''data_set'', ''dogs'', ''c.png''],
        [''home'', ''output_parallel'', ''dogs'', ''c.png''])],
      Dir [(''content'',
            Dir [(''data_set'',
                  Dir [(''cats'', Dir [(''a.png'', File), (''b.png'', File)]),
                       (''readme.txt'', File),
                       (''dogs'', Dir [(''c.png'', File)])])]),
           (''home'',
            Dir [(''output_parallel'', Dir [(''cats'', Dir []), (''dogs'', Dir [])])])])"

definition example_sweep_clock :: sweep_clock where
  \<comment> \<open>Passes of 8, 4, 2 and 2 seconds.\<close>
  "example_sweep_clock =
     \<lparr>start_time = (\<lambda>k. 0),
      end_time = (\<lambda>k. if k = 0 then 8 else if k = 1 then 4 else 2)\<rparr>"



section \<open>Verification\<close>

subsection \<open>The partition step\<close>

lemma length_cumsum: "length (cumsum acc xs) = length xs"
  by (induction xs arbitrary: acc) auto

lemma cumsum_nth:
  "i < length xs \<Longrightarrow> cumsum acc xs ! i = acc + sum_list (take (Suc i) xs)"
proof (induction xs arbitrary: acc i)
  case Nil
  then show ?case by simp
next
  case (Cons x xs)
  show ?case
  proof (cases i)
    case 0
    then show ?thesis by simp
  next
    case (Suc j)
    with Cons.prems have "j < length xs" by simp
    from Cons.IH [OF this, of "acc + x"] Suc show ?thesis by simp
  qed
qed

lemma sum_list_take_sizes:
  assumes "i \<le> n" and "e \<le> n"
  shows "sum_list (take i (replicate e (Suc b) @ replicate (n - e) b)) = i * b + min i e"
proof (cases "i \<le> e")
  case True
  then show ?thesis by (simp add: min_def sum_list_replicate)
next
  case False
  then have m: "min (i - e) (n - e) = i - e" and ie: "i = e + (i - e)"
    using assms by simp_all
  have "sum_list (take i (replicate e (Suc b) @ replicate (n - e) b))
          = e * Suc b + (i - e) * b"
    using False by (simp add: sum_list_replicate m)
  also have "\<dots> = (e + (i - e)) * b + e"
    by (simp add: add_mult_distrib)
  also have "\<dots> = i * b + min i e"
    using False ie by (simp add: min_def)
  finally show ?thesis .
qed

lemma div_points_nth:
  assumes "0 < N" and "i \<le> N"
  shows "cumsum 0 (section_sizes L N) ! i = div_point L N i"
proof -
  have e: "L mod N \<le> N" using assms(1) by (simp add: less_imp_le)
  have "i < length (section_sizes L N)"
    using assms e by (simp add: section_sizes_def Let_def)
  then have "cumsum 0 (section_sizes L N) ! i = sum_list (take (Suc i) (section_sizes L N))"
    by (simp add: cumsum_nth)
  also have "\<dots> = sum_list (take i (replicate (L mod N) (Suc (L div N))
                                   @ replicate (N - L mod N) (L div N)))"
    by (simp add: section_sizes_def Let_def)
  also have "\<dots> = div_point L N i"
    unfolding div_point_def using sum_list_take_sizes [OF assms(2) e] by simp
  finally show ?thesis .
qed

lemma div_point_0: "div_point L N 0 = 0"
  by (simp add: div_point_def)

lemma div_point_last: "0 < N \<Longrightarrow> div_point L N N = L"
proof -
  assume "0 < N"
  then have "L mod N < N" by simp
  then have "min N (L mod N) = L mod N" by simp
  then show "div_point L N N = L" by (simp add: div_point_def)
qed

lemma div_point_Suc:
  "div_point L N (Suc i) = div_point L N i + (if i < L mod N then L div N + 1 else L div N)"
  by (simp add: div_point_def min_def)

lemma div_point_mono: "div_point L N i \<le> div_point L N (Suc i)"
  by (simp add: div_point_Suc)

lemma concat_slices:
  "concat (map (\<lambda>i. slice xs (div_point L N i) (div_point L N (Suc i))) [0..<k])
     = take (div_point L N k) xs"
proof (induction k)
  case 0
  then show ?case by (simp add: div_point_0)
next
  case (Suc k)
  have "div_point L N (Suc k)
          = div_point L N k + (div_point L N (Suc k) - div_point L N k)"
    using div_point_mono [of L N k] by simp
  then have "take (div_point L N (Suc k)) xs
          = take (div_point L N k) xs @ slice xs (div_point L N k) (div_point L N (Suc k))"
    unfolding slice_def by (metis take_add)
  with Suc show ?case by simp
qed

lemma array_split_chunks:
  assumes "0 < n"
  shows "array_split items n
           = Inr (map (\<lambda>i. slice items (div_point (length items) (nat n) i)
                                        (div_point (length items) (nat n) (Suc i)))
                    [0..<nat n])"
proof -
  have N: "0 < nat n" using assms by simp
  have "map (\<lambda>i. slice items (cumsum 0 (section_sizes (length items) (nat n)) ! i)
                             (cumsum 0 (section_sizes (length items) (nat n)) ! (i + 1)))
          [0..<nat n]
      = map (\<lambda>i. slice items (div_point (length items) (nat n) i)
                             (div_point (length items) (nat n) (Suc i)))
          [0..<nat n]"
    by (rule map_cong [OF refl]) (simp add: div_points_nth [OF N])
  with assms show ?thesis by (simp add: array_split_def Let_def)
qed

lemma div_point_le: "i \<le> j \<Longrightarrow> div_point L N i \<le> div_point L N j"
  unfolding div_point_def by (intro add_mono mult_le_mono1 min.mono) simp_all

lemma length_slice_div_point:
  assumes "0 < N" and "i < N"
  shows "length (slice xs (div_point (length xs) N i) (div_point (length xs) N (Suc i)))
           = (if i < length xs mod N then length xs div N + 1 else length xs div N)"
proof -
  let ?L = "length xs"
  let ?d = "if i < ?L mod N then ?L div N + 1 else ?L div N"
  have "div_point ?L N (Suc i) \<le> div_point ?L N N"
    using assms(2) by (intro div_point_le) simp
  then have le: "div_point ?L N i + ?d \<le> ?L"
    using assms(1) by (simp only: div_point_last div_point_Suc)
  have "length (slice xs (div_point ?L N i) (div_point ?L N (Suc i)))
          = min (?L - div_point ?L N i) ?d"
    unfolding slice_def by (simp only: length_take length_drop div_point_Suc add_diff_cancel_left')
  also have "\<dots> = ?d"
    using le by linarith
  finally show ?thesis .
qed

subsection \<open>Traces of Transform calls, passes and nodes\<close>

lemma imread_calls_append: "imread_calls (xs @ ys) = imread_calls xs @ imread_calls ys"
  by (induction xs rule: imread_calls.induct) simp_all

lemma files_written_append: "files_written (xs @ ys) = files_written xs @ files_written ys"
  by (induction xs rule: files_written.induct) simp_all

lemma published_append: "published (xs @ ys) = published xs @ published ys"
  by (induction xs rule: published.induct) simp_all

lemma nodes_started_append: "nodes_started (xs @ ys) = nodes_started xs @ nodes_started ys"
  by (induction xs rule: nodes_started.induct) simp_all

lemma reported_append: "reported (xs @ ys) = reported xs @ reported ys"
  by (induction xs rule: reported.induct) simp_all

lemma efficiencies_append: "efficiencies (xs @ ys) = efficiencies xs @ efficiencies ys"
  by (induction xs rule: efficiencies.induct) simp_all

lemma table_rows_append: "table_rows (xs @ ys) = table_rows xs @ table_rows ys"
  by (induction xs rule: table_rows.induct) simp_all

lemmas obs_append = imread_calls_append files_written_append published_append
  nodes_started_append reported_append efficiencies_append table_rows_append

text \<open>One Transform call.\<close>

lemma imread_calls_process_single_image:
  "imread_calls (process_single_image env item) = [fst item]"
  by (cases item) (simp add: process_single_image_def split: cv2_outcome.split)

lemma files_written_process_single_image:
  "files_written (process_single_image env item) = (if env item = Processed then [snd item] else [])"
  by (cases item) (simp add: process_single_image_def split: cv2_outcome.split)

lemma published_process_single_image: "published (process_single_image env item) = []"
  by (cases item) (simp add: process_single_image_def split: cv2_outcome.split)

lemma nodes_started_process_single_image: "nodes_started (process_single_image env item) = []"
  by (cases item) (simp add: process_single_image_def split: cv2_outcome.split)

lemma reported_process_single_image: "reported (process_single_image env item) = []"
  by (cases item) (simp add: process_single_image_def split: cv2_outcome.split)

lemma efficiencies_process_single_image: "efficiencies (process_single_image env item) = []"
  by (cases item) (simp add: process_single_image_def split: cv2_outcome.split)

text \<open>A pass over a list of items.\<close>

lemma imread_calls_pass:
  "imread_calls (concat (map (process_single_image env) items)) = map fst items"
  by (induction items) (simp_all add: imread_calls_append imread_calls_process_single_image)

lemma files_written_pass:
  "files_written (concat (map (process_single_image env) items))
     = map snd (filter (\<lambda>item. env item = Processed) items)"
  by (induction items) (simp_all add: files_written_append files_written_process_single_image)

lemma published_pass: "published (concat (map (process_single_image env) items)) = []"
  by (induction items) (simp_all add: published_append published_process_single_image)

lemma nodes_started_pass: "nodes_started (concat (map (process_single_image env) items)) = []"
  by (induction items) (simp_all add: nodes_started_append nodes_started_process_single_image)

lemma reported_pass: "reported (concat (map (process_single_image env) items)) = []"
  by (induction items) (simp_all add: reported_append reported_process_single_image)

lemma efficiencies_pass: "efficiencies (concat (map (process_single_image env) items)) = []"
  by (induction items) (simp_all add: efficiencies_append efficiencies_process_single_image)



lemma published_node_task:
  "published (node_task env clk node_id chunk)
     = [(node_id, (length chunk, node_end_time clk node_id - node_start_time clk node_id))]"
  by (simp add: node_task_def Let_def published_append published_pass)

lemma reported_node_task: "reported (node_task env clk node_id chunk) = []"
  by (simp add: node_task_def Let_def reported_append reported_pass)

lemma efficiencies_node_task: "efficiencies (node_task env clk node_id chunk) = []"
  by (simp add: node_task_def Let_def efficiencies_append efficiencies_pass)

subsection \<open>Schedules, the result store and sorting\<close>

text \<open>The nodes side by side: every schedule carries out the same writes.\<close>

lemma concat_step:
  assumes "i < length procs" and "procs ! i = e # rest"
  shows "concat procs = concat (take i procs) @ e # rest @ concat (drop (Suc i) procs)"
    and "concat (procs[i := rest]) = concat (take i procs) @ rest @ concat (drop (Suc i) procs)"
proof -
  have "procs = take i procs @ (e # rest) # drop (Suc i) procs"
    using assms by (metis id_take_nth_drop)
  then have "concat procs = concat (take i procs @ (e # rest) # drop (Suc i) procs)"
    by simp
  then show "concat procs = concat (take i procs) @ e # rest @ concat (drop (Suc i) procs)"
    by simp
  have "procs[i := rest] = take i procs @ rest # drop (Suc i) procs"
    using assms(1) by (rule upd_conv_take_nth_drop)
  then show "concat (procs[i := rest])
               = concat (take i procs) @ rest @ concat (drop (Suc i) procs)"
    by simp
qed

lemma mset_run_nodes: "mset (run_nodes sched procs) = mset (concat procs)"
proof (induction sched arbitrary: procs)
  case Nil
  show ?case by simp
next
  case (Cons i sched)
  show ?case
  proof (cases "i < length procs")
    case False
    then show ?thesis by (simp add: Cons.IH)
  next
    case True
    show ?thesis
    proof (cases "procs ! i")
      case Nil
      with True show ?thesis by (simp add: Cons.IH)
    next
      case (Cons e rest)
      from concat_step [OF True Cons]
      have "mset (concat procs) = add_mset e (mset (concat (procs[i := rest])))"
        by simp
      with True Cons show ?thesis by (simp add: Cons.IH)
    qed
  qed
qed

lemma mset_published: "mset tr = mset tr' \<Longrightarrow> mset (published tr) = mset (published tr')"
proof -
  have p: "published tr = concat (map (\<lambda>e. published [e]) tr)" for tr
    by (induction tr rule: published.induct) simp_all
  assume "mset tr = mset tr'"
  then have "mset (concat (map (\<lambda>e. published [e]) tr))
               = mset (concat (map (\<lambda>e. published [e]) tr'))"
    unfolding mset_concat map_map by (metis mset_map sum_mset_sum_list)
  then show ?thesis by (simp only: p [symmetric])
qed

lemma published_concat: "published (concat procs) = concat (map published procs)"
  by (induction procs) (simp_all add: published_append)

text \<open>The result store after the writes.\<close>

lemma foldl_store_published:
  "foldl store d tr = foldl (\<lambda>d (node_id, result). AList.update node_id result d) d (published tr)"
  by (induction tr arbitrary: d rule: published.induct) simp_all

lemma update_fresh: "k \<notin> fst ` set d \<Longrightarrow> AList.update k v d = d @ [(k, v)]"
  by (induction d) auto

lemma foldl_update_distinct:
  assumes "distinct (map fst (d @ ps))"
  shows "foldl (\<lambda>d (node_id, result). AList.update node_id result d) d ps = d @ ps"
  using assms
proof (induction ps arbitrary: d)
  case Nil
  show ?case by simp
next
  case (Cons p ps)
  obtain k v where p: "p = (k, v)" by (cases p)
  from Cons.prems p have fresh: "k \<notin> fst ` set d" by auto
  from Cons.prems p have "distinct (map fst ((d @ [(k, v)]) @ ps))" by simp
  from Cons.IH [OF this] fresh p show ?case by (simp add: update_fresh)
qed

lemma store_trace:
  assumes "distinct (map fst (published tr))"
  shows "foldl store [] tr = published tr"
  using foldl_update_distinct [of "[]" "published tr"] assms
  by (simp add: foldl_store_published)

text \<open>Sorting by a key without repetitions.\<close>

lemma filter_key_distinct:
  "distinct (map f xs) \<Longrightarrow> x \<in> set xs \<Longrightarrow> filter (\<lambda>y. f x = f y) xs = [x]"
proof (induction xs)
  case Nil
  then show ?case by simp
next
  case (Cons a xs)
  show ?case
  proof (cases "x = a")
    case True
    have "filter (\<lambda>y. f a = f y) xs = []"
      using Cons.prems(1) by (auto simp: filter_empty_conv)
    with True show ?thesis by simp
  next
    case False
    with Cons.prems have x: "x \<in> set xs" by simp
    then have "f x \<in> f ` set xs" by (rule imageI)
    moreover have "f a \<notin> f ` set xs" using Cons.prems(1) by simp
    ultimately have "f x \<noteq> f a" by metis
    with x Cons show ?thesis by simp
  qed
qed

lemma sort_key_unique:
  assumes "mset xs = mset ys" and "distinct (map f ys)" and "sorted (map f ys)"
  shows "sort_key f xs = ys"
proof (rule properties_for_sort_key)
  show "mset ys = mset xs" using assms(1) by simp
  show "sorted (map f ys)" by (rule assms(3))
  fix k assume k: "k \<in> set ys"
  have "mset (map f xs) = mset (map f ys)" using assms(1) by simp
  then have dx: "distinct (map f xs)" using assms(2) by (metis mset_eq_imp_distinct_iff)
  have "k \<in> set xs" using k assms(1) by (metis mset_eq_setD)
  then have "filter (\<lambda>x. f k = f x) xs = [k]" using dx by (intro filter_key_distinct)
  moreover have "filter (\<lambda>x. f k = f x) ys = [k]" using assms(2) k by (intro filter_key_distinct)
  ultimately show "filter (\<lambda>x. f k = f x) ys = filter (\<lambda>x. f k = f x) xs" by simp
qed

subsection \<open>The distributed run\<close>

text \<open>The run of \<open>main\<close> once Discovery and the partition step have succeeded.\<close>

lemma published_node_processes:
  "published (concat (node_processes env clk n chunks)) = map (node_result clk chunks) [0..<nat n]"
proof -
  have "concat (map published (node_processes env clk n chunks))
          = concat (map (\<lambda>i. [node_result clk chunks i]) [0..<nat n])"
    by (simp add: node_processes_def node_result_def published_node_task comp_def)
  then show ?thesis
    by (simp only: published_concat concat_map_singleton)
qed

lemma fst_node_result: "map fst (map (node_result clk chunks) [0..<N]) = map Suc [0..<N]"
  by (simp add: node_result_def comp_def)

lemma distinct_node_results: "distinct (map fst (map (node_result clk chunks) [0..<N]))"
  by (simp only: fst_node_result) (simp add: distinct_map)

lemma sorted_node_results: "sorted (map fst (map (node_result clk chunks) [0..<N]))"
  by (simp only: fst_node_result) (simp add: sorted_map sorted_wrt_map)

lemma mset_published_nodes:
  "mset (published (run_nodes sched (node_processes env clk n chunks)))
     = mset (map (node_result clk chunks) [0..<nat n])"
  using mset_published [OF mset_run_nodes [of sched "node_processes env clk n chunks"]]
  by (simp only: published_node_processes)

lemma store_nodes:
  "foldl store [] (run_nodes sched (node_processes env clk n chunks))
     = published (run_nodes sched (node_processes env clk n chunks))"
proof (rule store_trace)
  let ?p = "published (run_nodes sched (node_processes env clk n chunks))"
  have "mset (map fst ?p) = mset (map fst (map (node_result clk chunks) [0..<nat n]))"
    using mset_published_nodes [of sched env clk n chunks] by (metis mset_map)
  then show "distinct (map fst ?p)"
    using distinct_node_results [of clk chunks "nat n"] by (metis mset_eq_imp_distinct_iff)
qed

lemma sorted_results_nodes:
  "sort_key fst (published (run_nodes sched (node_processes env clk n chunks)))
     = map (node_result clk chunks) [0..<nat n]"
  by (rule sort_key_unique [OF mset_published_nodes distinct_node_results sorted_node_results])

lemma summary_lines_nodes:
  "reported (summary_lines (published (run_nodes sched (node_processes env clk n chunks))))
     = map (node_line clk chunks) [0..<nat n]"
proof -
  have r: "reported (map (\<lambda>(node_id, result). Print (NodeLine node_id (fst result) (snd result))) d)
             = map (\<lambda>(node_id, result). (node_id, fst result, snd result)) d" for d
    by (induction d) auto
  show ?thesis
    unfolding summary_lines_def sorted_results_nodes r
    by (simp add: node_result_def node_line_def)
qed

lemma main_distributed_run:
  assumes "get_all_image_paths fs INPUT_DIR (OUTPUT_DIR_distributed cwd) = Inr (items, fs')"
    and "array_split items n = Inr chunks"
  shows "main_distributed fs cwd env clk n sched =
     (let nodes = run_nodes sched (node_processes env clk n chunks);
          par = master_end_time clk - master_start_time clk;
          seq = seq_end_time clk - seq_start_time clk
      in \<lparr>raised = (if par = 0 then Some ZeroDivisionError else None),
          trace = baseline env clk n items @ nodes
                  @ [Print SummaryHeader] @ summary_lines (published nodes)
                  @ [Print (TotalDistributedTime par)]
                  @ (if par = 0 then [] else [Print (Efficiency (seq / par))]),
          results_dict = published nodes\<rparr>)"
proof -
  have procs: "map (\<lambda>i. node_task env clk (Suc i) (chunks ! i)) [0..<nat n]
                 = node_processes env clk n chunks"
    by (simp add: node_processes_def)
  show ?thesis
    using assms
    by (simp add: main_distributed_def Let_def baseline_def py_truediv_def procs store_nodes)
qed

lemma main_distributed_no_split:
  assumes "get_all_image_paths fs INPUT_DIR (OUTPUT_DIR_distributed cwd) = Inr (items, fs')"
    and "array_split items n = Inl e"
  shows "main_distributed fs cwd env clk n sched
           = \<lparr>raised = Some e, trace = baseline env clk n items, results_dict = []\<rparr>"
  using assms by (simp add: main_distributed_def Let_def baseline_def)

subsection \<open>Parts of the distributed run\<close>

text \<open>What the partition step returns.\<close>

lemma array_split_Inr:
  assumes "array_split items n = Inr chunks"
  shows "0 < n" and "length chunks = nat n" and "concat chunks = items"
proof -
  show n: "0 < n"
    using assms by (simp add: array_split_def split: if_splits)
  then have N: "0 < nat n" by simp
  from assms have c: "chunks = map (\<lambda>i. slice items (div_point (length items) (nat n) i)
                                        (div_point (length items) (nat n) (Suc i))) [0..<nat n]"
    by (simp only: array_split_chunks [OF n] sum.inject)
  show "length chunks = nat n" by (simp add: c)
  show "concat chunks = items"
    by (simp only: c concat_slices div_point_last [OF N] take_all order_refl)
qed

lemma array_split_positive: "0 < n \<Longrightarrow> \<exists>chunks. array_split items n = Inr chunks"
  by (simp add: array_split_def Let_def)

lemma array_split_not_positive: "n \<le> 0 \<Longrightarrow> array_split items n = Inl ValueError"
  by (simp add: array_split_def)

text \<open>Parts of the trace of \<open>main\<close>.\<close>

lemma published_summary_lines: "published (summary_lines d) = []"
proof -
  have "published (map (\<lambda>(node_id, result). Print (NodeLine node_id (fst result) (snd result))) xs)
          = []" for xs
    by (induction xs) auto
  then show ?thesis by (simp only: summary_lines_def)
qed

lemma efficiencies_summary_lines: "efficiencies (summary_lines d) = []"
proof -
  have "efficiencies
          (map (\<lambda>(node_id, result). Print (NodeLine node_id (fst result) (snd result))) xs)
          = []" for xs
    by (induction xs) auto
  then show ?thesis by (simp only: summary_lines_def)
qed

lemma published_baseline: "published (baseline env clk n items) = []"
  by (simp add: baseline_def published_append published_pass)

lemma reported_baseline: "reported (baseline env clk n items) = []"
  by (simp add: baseline_def reported_append reported_pass)

lemma efficiencies_baseline: "efficiencies (baseline env clk n items) = []"
  by (simp add: baseline_def efficiencies_append efficiencies_pass)

lemma imread_calls_baseline: "imread_calls (baseline env clk n items) = map fst items"
  by (simp add: baseline_def imread_calls_append imread_calls_pass)

lemma nodes_started_baseline: "nodes_started (baseline env clk n items) = []"
  by (simp add: baseline_def nodes_started_append nodes_started_pass)

lemma results_counts:
  assumes "array_split items n = Inr chunks"
    and "mset d = mset (map (node_result clk chunks) [0..<nat n])"
  shows "sum_list (map (\<lambda>(node_id, result). fst result) d) = length items"
proof -
  let ?c = "\<lambda>(node_id, result). fst result :: nat"
  have len: "length chunks = nat n" and cat: "concat chunks = items"
    using array_split_Inr [OF assms(1)] by simp_all
  have "sum_list (map ?c d) = sum_mset (image_mset ?c (mset d))"
    by (metis mset_map sum_mset_sum_list)
  also have "\<dots> = sum_list (map ?c (map (node_result clk chunks) [0..<nat n]))"
    unfolding assms(2) by (metis mset_map sum_mset_sum_list)
  also have "\<dots> = sum_list (map (\<lambda>i. length (chunks ! i)) [0..<length chunks])"
    by (simp add: node_result_def comp_def len)
  also have "\<dots> = sum_list (map length (map (\<lambda>i. chunks ! i) [0..<length chunks]))"
    by (simp only: map_map comp_def)
  also have "\<dots> = sum_list (map length chunks)"
    by (simp only: map_nth)
  also have "\<dots> = length items"
    by (simp only: cat [symmetric] length_concat)
  finally show ?thesis .
qed

text \<open>What the nodes never print.\<close>

lemma reported_empty_iff: "reported tr = [] \<longleftrightarrow> (\<forall>e\<in>set tr. reported [e] = [])"
  by (induction tr rule: reported.induct) simp_all

lemma efficiencies_empty_iff: "efficiencies tr = [] \<longleftrightarrow> (\<forall>e\<in>set tr. efficiencies [e] = [])"
  by (induction tr rule: efficiencies.induct) simp_all

lemma set_run_nodes: "set (run_nodes sched procs) = set (concat procs)"
  using mset_run_nodes [of sched procs] by (rule mset_eq_setD)

lemma reported_nodes: "reported (run_nodes sched (node_processes env clk n chunks)) = []"
proof -
  have "reported (concat (map (\<lambda>i. node_task env clk (i + 1) (chunks ! i)) xs)) = []" for xs
    by (induction xs) (simp_all add: reported_append reported_node_task)
  then have "reported (concat (node_processes env clk n chunks)) = []"
    by (simp only: node_processes_def)
  then show ?thesis
    by (simp only: reported_empty_iff [of "run_nodes sched (node_processes env clk n chunks)"]
        reported_empty_iff [of "concat (node_processes env clk n chunks)"] set_run_nodes)
qed

lemma efficiencies_nodes: "efficiencies (run_nodes sched (node_processes env clk n chunks)) = []"
proof -
  have "efficiencies (concat (map (\<lambda>i. node_task env clk (i + 1) (chunks ! i)) xs)) = []" for xs
    by (induction xs) (simp_all add: efficiencies_append efficiencies_node_task)
  then have "efficiencies (concat (node_processes env clk n chunks)) = []"
    by (simp only: node_processes_def)
  then show ?thesis
    by (simp only: efficiencies_empty_iff [of "run_nodes sched (node_processes env clk n chunks)"]
        efficiencies_empty_iff [of "concat (node_processes env clk n chunks)"] set_run_nodes)
qed

lemma reported_main_distributed:
  assumes "get_all_image_paths fs INPUT_DIR (OUTPUT_DIR_distributed cwd) = Inr (items, fs')"
    and "array_split items n = Inr chunks"
  shows "reported (trace (main_distributed fs cwd env clk n sched))
           = map (node_line clk chunks) [0..<nat n]"
  by (simp add: main_distributed_run [OF assms] Let_def reported_append reported_baseline
      reported_nodes summary_lines_nodes)

lemma main_distributed_no_discovery:
  assumes "get_all_image_paths fs INPUT_DIR (OUTPUT_DIR_distributed cwd) = Inl e"
  shows "main_distributed fs cwd env clk n sched
           = \<lparr>raised = Some e, trace = [], results_dict = []\<rparr>"
  using assms by (simp add: main_distributed_def)

lemma reported_main_distributed_cases:
  obtains "reported (trace (main_distributed fs cwd env clk n sched)) = []"
      and "reported (trace (main_distributed fs cwd env clk n sched')) = []"
  | chunks where "reported (trace (main_distributed fs cwd env clk n sched))
                    = map (node_line clk chunks) [0..<nat n]"
      and "reported (trace (main_distributed fs cwd env clk n sched'))
                    = map (node_line clk chunks) [0..<nat n]"
proof (cases "get_all_image_paths fs INPUT_DIR (OUTPUT_DIR_distributed cwd)")
  case (Inl e)
  then have "reported (trace (main_distributed fs cwd env clk n s)) = []" for s
    by (simp add: main_distributed_no_discovery)
  then show ?thesis using that(1) by blast
next
  case (Inr found)
  then obtain items fs' where
    disc: "get_all_image_paths fs INPUT_DIR (OUTPUT_DIR_distributed cwd) = Inr (items, fs')"
    by (cases found) simp
  show ?thesis
  proof (cases "array_split items n")
    case (Inl e)
    have "reported (trace (main_distributed fs cwd env clk n s)) = []" for s
      by (simp add: main_distributed_no_split [OF disc Inl] reported_baseline)
    then show ?thesis using that(1) by blast
  next
    case (Inr chunks)
    have "reported (trace (main_distributed fs cwd env clk n s))
            = map (node_line clk chunks) [0..<nat n]" for s
      by (rule reported_main_distributed [OF disc Inr])
    then show ?thesis using that(2) by blast
  qed
qed

lemma node_lines_ascending: "sorted_wrt (<) (map fst (map (node_line clk chunks) [0..<N]))"
proof -
  have eq: "map fst (map (node_line clk chunks) [0..<N]) = map Suc [0..<N]"
    by (simp add: node_line_def comp_def)
  have "sorted_wrt (<) (map Suc [0..<N])"
    by (simp add: sorted_wrt_map)
  then show ?thesis
    by (simp only: eq)
qed

lemma published_nodes_keys:
  "fst ` set (published (run_nodes sched (node_processes env clk n chunks))) = {1..nat n}"
    and published_nodes_length:
  "length (published (run_nodes sched (node_processes env clk n chunks))) = nat n"
proof -
  let ?p = "published (run_nodes sched (node_processes env clk n chunks))"
  let ?want = "map (node_result clk chunks) [0..<nat n]"
  have m: "mset ?p = mset ?want" by (rule mset_published_nodes)
  then have "set ?p = set ?want" by (rule mset_eq_setD)
  then have "fst ` set ?p = fst ` set ?want" by simp
  also have "\<dots> = set (map fst ?want)" by (simp only: set_map)
  also have "\<dots> = {1..nat n}"
    by (simp only: fst_node_result set_map set_upt image_Suc_atLeastLessThan
        atLeastLessThanSuc_atLeastAtMost One_nat_def)
  finally show "fst ` set ?p = {1..nat n}" .
  have "length ?p = length ?want" using m by (rule mset_eq_length)
  then show "length ?p = nat n" by simp
qed

subsection \<open>The example run\<close>

lemma example_discovery:
  "get_all_image_paths example_fs INPUT_DIR (OUTPUT_DIR_distributed example_cwd)
     = Inr (example_items, example_fs')"
  by code_simp

lemma example_split: "array_split example_items 2 = Inr example_chunks"
  by code_simp

lemma example_discovery_parallel:
  "get_all_image_paths example_fs INPUT_DIR (OUTPUT_DIR_parallel example_cwd)
     = Inr example_found_parallel"
  by code_simp

subsection \<open>The thread-pool sweep\<close>

text \<open>The thread pool carries out the events of its tasks and no others.\<close>

lemma mset_pool_steps:
  "mset (pool_steps sched threads pending) = mset (concat threads) + mset (concat pending)"
proof (induction sched threads pending rule: pool_steps.induct)
  case (1 threads pending)
  show ?case by simp
next
  case (2 i sched threads pending)
  show ?case
  proof (cases "i < length threads")
    case False
    with 2 show ?thesis by simp
  next
    case True
    show ?thesis
    proof (cases "threads ! i")
      case (Cons e rest)
      from concat_step [OF True Cons]
      have "mset (concat threads) = add_mset e (mset (concat (threads[i := rest])))"
        by simp
      with True Cons 2 show ?thesis by simp
    next
      case Nil
      note idle = this
      show ?thesis
      proof (cases pending)
        case Nil
        with True idle 2 show ?thesis by simp
      next
        case (Cons task tasks)
        have "threads = take i threads @ [] # drop (Suc i) threads"
          using True idle by (metis id_take_nth_drop)
        then have a: "concat threads = concat (take i threads) @ concat (drop (Suc i) threads)"
          by (metis append_Nil concat.simps(2) concat_append)
        have "threads[i := task] = take i threads @ task # drop (Suc i) threads"
          using True by (rule upd_conv_take_nth_drop)
        then have b: "concat (threads[i := task])
                        = concat (take i threads) @ task @ concat (drop (Suc i) threads)"
          by simp
        have "mset (concat (threads[i := task])) = mset task + mset (concat threads)"
          by (simp only: a b mset_append) simp
        with True idle Cons 2 show ?thesis by simp
      qed
    qed
  qed
qed

lemma table_rows_empty_iff: "table_rows tr = [] \<longleftrightarrow> (\<forall>e\<in>set tr. table_rows [e] = [])"
  by (induction tr rule: table_rows.induct) simp_all

lemma table_rows_process_image: "table_rows (process_image env item) = []"
  by (cases item) (simp add: process_image_def split: cv2_outcome.split)

lemma table_rows_pool:
  "table_rows (pool_steps sched (replicate m []) (map (process_image env) items)) = []"
proof -
  have "set (pool_steps sched (replicate m []) (map (process_image env) items))
          = set (concat (map (process_image env) items))"
    using mset_pool_steps [of sched "replicate m []" "map (process_image env) items"]
    by (metis (no_types, lifting) add_0 concat_replicate_trivial mset.simps(1) mset_eq_setD)
  moreover have "table_rows (concat (map (process_image env) items)) = []"
    by (induction items) (simp_all add: table_rows_append table_rows_process_image)
  ultimately show ?thesis
    by (simp only: table_rows_empty_iff
        [of "pool_steps sched (replicate m []) (map (process_image env) items)"]
        table_rows_empty_iff [of "concat (map (process_image env) items)"])
qed

lemma table_rows_sweep: "table_rows (fst (sweep env clk scheds items k counts results)) = []"
proof (induction counts arbitrary: k results)
  case Nil
  show ?case by simp
next
  case (Cons w counts)
  show ?case
  proof (cases "w \<le> 0")
    case True
    then show ?thesis by simp
  next
    case False
    obtain later outcome where
      rest: "sweep env clk scheds items (Suc k) counts
               (results @ [(w, end_time clk k - start_time clk k)]) = (later, outcome)"
      by (cases "sweep env clk scheds items (Suc k) counts
               (results @ [(w, end_time clk k - start_time clk k)])")
    have "table_rows later = []"
      using Cons.IH [of "Suc k" "results @ [(w, end_time clk k - start_time clk k)]"]
      by (simp add: rest)
    with False rest show ?thesis
      by (simp add: Let_def table_rows_append table_rows_pool)
  qed
qed

lemma sweep_WORKER_COUNTS:
  "snd (sweep env clk scheds items 0 WORKER_COUNTS [])
     = Inr [(1, end_time clk 0 - start_time clk 0), (2, end_time clk 1 - start_time clk 1),
            (4, end_time clk 2 - start_time clk 2), (8, end_time clk 3 - start_time clk 3)]"
  by (simp add: WORKER_COUNTS_def Let_def numeral_2_eq_2 numeral_3_eq_3 split: prod.split)

text \<open>The rows of the speedup table.\<close>

lemma speedup_rows_sound:
  "(w, t, s) \<in> set (table_rows (fst (speedup_rows b rs))) \<Longrightarrow> t \<noteq> 0 \<and> s = b / t"
proof (induction rs)
  case Nil
  then show ?case by simp
next
  case (Cons r rs)
  obtain w' t' where r: "r = (w', t')" by (cases r)
  show ?case
  proof (cases "t' = 0")
    case True
    with Cons.prems r show ?thesis by (simp add: py_truediv_def)
  next
    case False
    with Cons r show ?thesis
      by (auto simp: py_truediv_def split: prod.splits)
  qed
qed

lemma speedup_rows_all:
  "\<forall>t \<in> snd ` set rs. t \<noteq> 0 \<Longrightarrow>
     speedup_rows b rs = (map (\<lambda>(w, t). Print (TableRow w t (b / t))) rs, None)"
  by (induction rs) (auto simp: py_truediv_def)

lemma speedup_rows_first:
  "t \<noteq> 0 \<Longrightarrow> take 1 (table_rows (fst (speedup_rows b ((w, t) # rest)))) = [(w, t, b / t)]"
  by (simp add: py_truediv_def split: prod.split)

lemma table_rows_map_rows:
  "table_rows (map (\<lambda>(w, t). Print (TableRow w t (b / t))) rs) = map (\<lambda>(w, t). (w, t, b / t)) rs"
  by (induction rs) auto

lemma table_rows_main_parallel:
  assumes "get_all_image_paths fs INPUT_DIR (OUTPUT_DIR_parallel cwd) = Inr (items, fs')"
    and "b = end_time clk 0 - start_time clk 0"
  shows "table_rows (trace (main_parallel fs cwd env clk scheds WORKER_COUNTS))
           = table_rows (fst (speedup_rows b
               [(1, b), (2, end_time clk 1 - start_time clk 1),
                (4, end_time clk 2 - start_time clk 2), (8, end_time clk 3 - start_time clk 3)]))"
    and "raised (main_parallel fs cwd env clk scheds WORKER_COUNTS)
           = snd (speedup_rows b
               [(1, b), (2, end_time clk 1 - start_time clk 1),
                (4, end_time clk 2 - start_time clk 2), (8, end_time clk 3 - start_time clk 3)])"
proof -
  obtain passes outcome where
    sw: "sweep env clk scheds items 0 WORKER_COUNTS [] = (passes, outcome)"
    by (cases "sweep env clk scheds items 0 WORKER_COUNTS []")
  have p: "table_rows passes = []"
    using table_rows_sweep [of env clk scheds items 0 WORKER_COUNTS "[]"] by (simp add: sw)
  have o: "outcome = Inr [(1, b), (2, end_time clk 1 - start_time clk 1),
                (4, end_time clk 2 - start_time clk 2), (8, end_time clk 3 - start_time clk 3)]"
    using sweep_WORKER_COUNTS [of env clk scheds items] by (simp add: sw assms(2))
  obtain rows err where
    sp: "speedup_rows b [(1, b), (2, end_time clk 1 - start_time clk 1),
           (4, end_time clk 2 - start_time clk 2), (8, end_time clk 3 - start_time clk 3)]
         = (rows, err)"
    by (cases "speedup_rows b [(1, b), (2, end_time clk 1 - start_time clk 1),
           (4, end_time clk 2 - start_time clk 2), (8, end_time clk 3 - start_time clk 3)]")
  have run: "main_parallel fs cwd env clk scheds WORKER_COUNTS
          = \<lparr>raised = err,
             trace = [Print Discovering, Print (FoundImages (length items))] @ passes
                     @ [Print TableHeader] @ rows\<rparr>"
  proof -
    have "sweep env clk scheds items 0 WORKER_COUNTS []
            = (passes, Inr [(1, b), (2, end_time clk 1 - start_time clk 1),
                (4, end_time clk 2 - start_time clk 2), (8, end_time clk 3 - start_time clk 3)])"
      using sw o by simp
    with sp show ?thesis
      by (simp add: main_parallel_def assms(1) del: speedup_rows.simps)
  qed
  have "table_rows (trace (main_parallel fs cwd env clk scheds WORKER_COUNTS)) = table_rows rows"
    by (simp add: run table_rows_append p)
  then show "table_rows (trace (main_parallel fs cwd env clk scheds WORKER_COUNTS))
           = table_rows (fst (speedup_rows b
               [(1, b), (2, end_time clk 1 - start_time clk 1),
                (4, end_time clk 2 - start_time clk 2), (8, end_time clk 3 - start_time clk 3)]))"
    by (simp only: sp fst_conv)
  have "raised (main_parallel fs cwd env clk scheds WORKER_COUNTS) = err"
    by (simp add: run)
  then show "raised (main_parallel fs cwd env clk scheds WORKER_COUNTS)
           = snd (speedup_rows b
               [(1, b), (2, end_time clk 1 - start_time clk 1),
                (4, end_time clk 2 - start_time clk 2), (8, end_time clk 3 - start_time clk 3)])"
    by (simp only: sp snd_conv)
qed

subsection \<open>The filesystem\<close>

text \<open>Looking up below a path, and in a chain of new directories.\<close>

lemma lookup_append:
  "lookup n (p @ r) = (case lookup n p of None \<Rightarrow> None | Some m \<Rightarrow> lookup m r)"
proof (induction p arbitrary: n)
  case Nil
  show ?case by simp
next
  case (Cons c p)
  show ?case
  proof (cases n)
    case File
    then show ?thesis by simp
  next
    case (Dir es)
    then show ?thesis by (simp add: Cons.IH split: option.split)
  qed
qed

lemma lookup_fresh_dirs_below: "lookup (fresh_dirs (p @ r)) p = Some (fresh_dirs r)"
  by (induction p) simp_all

lemma lookup_fresh_dirs_aside: "\<not> prefix p q \<Longrightarrow> lookup (fresh_dirs q) p = None"
proof (induction q arbitrary: p)
  case Nil
  then show ?case by (cases p) simp_all
next
  case (Cons c q)
  then show ?case by (cases p) (simp_all split: if_splits)
qed

lemma map_of_snoc:
  "map_of (es @ [(c, x)]) d
     = (case map_of es d of Some v \<Rightarrow> Some v | None \<Rightarrow> if d = c then Some x else None)"
  by (induction es) auto

text \<open>What \<open>os.makedirs\<close> leaves alone, and what it makes of the directories on its way.\<close>

lemma makedirs_frame:
  "os_makedirs n q = Inr n' \<Longrightarrow> \<not> prefix p q \<Longrightarrow> lookup n' p = lookup n p"
proof (induction n q arbitrary: n' p rule: os_makedirs.induct)
  case (1 n)
  then show ?case by simp
next
  case (2 c cs)
  then show ?case by simp
next
  case (3 es c cs)
  from "3.prems"(2) obtain d ps where p: "p = d # ps" by (cases p) simp_all
  show ?case
  proof (cases "map_of es c")
    case None
    with "3.prems"(1) have n': "n' = Dir (es @ [(c, fresh_dirs cs)])" by simp
    show ?thesis
    proof (cases "d = c")
      case True
      with "3.prems"(2) p have "\<not> prefix ps cs" by simp
      then have "lookup (fresh_dirs cs) ps = None" by (rule lookup_fresh_dirs_aside)
      with None True show ?thesis by (simp add: n' p map_of_snoc del: map_of_append)
    next
      case False
      then show ?thesis by (simp add: n' p map_of_snoc del: map_of_append split: option.split)
    qed
  next
    case (Some m)
    with "3.prems"(1) obtain m' where m': "os_makedirs m cs = Inr m'"
      and n': "n' = Dir (AList.update c m' es)"
      by (auto split: sum.splits)
    show ?thesis
    proof (cases "d = c")
      case True
      with "3.prems"(2) p have "\<not> prefix ps cs" by simp
      from "3.IH" [OF Some m' this] Some True show ?thesis
        by (simp add: n' p update_conv')
    next
      case False
      then show ?thesis by (simp add: n' p update_conv')
    qed
  qed
qed



lemma makedirs_below:
  "os_makedirs n (p @ r) = Inr n' \<Longrightarrow>
     \<exists>m'. lookup n' p = Some m'
        \<and> (case lookup n p of None \<Rightarrow> m' = fresh_dirs r | Some m \<Rightarrow> os_makedirs m r = Inr m')"
proof (induction p arbitrary: n n')
  case Nil
  then show ?case by simp
next
  case (Cons c p)
  show ?case
  proof (cases n)
    case File
    with Cons.prems show ?thesis by simp
  next
    case (Dir es)
    show ?thesis
    proof (cases "map_of es c")
      case None
      with Cons.prems Dir have "n' = Dir (es @ [(c, fresh_dirs (p @ r))])" by simp
      with None Dir show ?thesis
        by (simp add: map_of_snoc lookup_fresh_dirs_below del: map_of_append)
    next
      case (Some m)
      with Cons.prems Dir obtain m' where m': "os_makedirs m (p @ r) = Inr m'"
        and n': "n' = Dir (AList.update c m' es)"
        by (auto split: sum.splits)
      from Cons.IH [OF m'] Some Dir show ?thesis
        by (simp add: n' update_conv')
    qed
  qed
qed

lemma makedirs_keeps:
  assumes "os_makedirs n q = Inr n'" and "lookup n p \<noteq> None"
  shows "lookup n' p \<noteq> None"
proof (cases "prefix p q")
  case False
  with assms show ?thesis by (simp add: makedirs_frame)
next
  case True
  then obtain r where "q = p @ r" by (auto simp: prefix_def)
  with makedirs_below [of n p r n'] assms(1) show ?thesis by auto
qed

lemma makedirs_keeps_File:
  assumes "os_makedirs n q = Inr n'" and "lookup n p = Some File"
  shows "lookup n' p = Some File"
proof (cases "prefix p q")
  case False
  with assms show ?thesis by (simp add: makedirs_frame)
next
  case True
  then obtain r where q: "q = p @ r" by (auto simp: prefix_def)
  from makedirs_below [of n p r n'] assms q
  have "\<exists>m'. os_makedirs File r = Inr m'" by auto
  then show ?thesis by (cases r) simp_all
qed

lemma makedirs_creates: "os_makedirs n q = Inr n' \<Longrightarrow> lookup n' q \<noteq> None"
  using makedirs_below [of n q "[]" n'] by auto

subsection \<open>Discovery\<close>

text \<open>The idiom that creates a directory unless it exists.\<close>

lemma ensure_dir_cases:
  assumes "ensure_dir fs q = Inr fs'"
  obtains "os_path_exists fs q" and "fs' = fs"
  | "\<not> os_path_exists fs q" and "os_makedirs fs q = Inr fs'"
  using assms by (auto simp: ensure_dir_def split: if_splits)

lemma ensure_dir_existing: "os_path_exists fs q \<Longrightarrow> ensure_dir fs q = Inr fs"
  by (simp add: ensure_dir_def)

lemma ensure_dir_frame:
  "ensure_dir fs q = Inr fs' \<Longrightarrow> \<not> prefix p q \<Longrightarrow> lookup fs' p = lookup fs p"
  by (erule ensure_dir_cases) (simp_all add: makedirs_frame)


lemma ensure_dir_keeps:
  "ensure_dir fs q = Inr fs' \<Longrightarrow> os_path_exists fs p \<Longrightarrow> os_path_exists fs' p"
  unfolding os_path_exists_def
  by (erule ensure_dir_cases) (simp_all add: makedirs_keeps)

lemma ensure_dir_keeps_File:
  "ensure_dir fs q = Inr fs' \<Longrightarrow> lookup fs p = Some File \<Longrightarrow> lookup fs' p = Some File"
  by (erule ensure_dir_cases) (simp_all add: makedirs_keeps_File)

lemma ensure_dir_creates: "ensure_dir fs q = Inr fs' \<Longrightarrow> os_path_exists fs' q"
  by (erule ensure_dir_cases) (simp_all add: os_path_exists_def makedirs_creates)

lemma ensure_dir_same_subtree:
  assumes "lookup A p = lookup B p"
    and "ensure_dir A q = Inr A'" and "ensure_dir B q = Inr B'"
  shows "lookup A' p = lookup B' p"
proof (cases "prefix p q")
  case False
  with assms show ?thesis by (simp add: ensure_dir_frame)
next
  case True
  then obtain r where q: "q = p @ r" by (auto simp: prefix_def)
  have same: "os_path_exists A q = os_path_exists B q"
    by (simp add: os_path_exists_def q lookup_append assms(1))
  show ?thesis
  proof (cases "os_path_exists A q")
    case True
    with same assms show ?thesis by (simp add: ensure_dir_def)
  next
    case False
    with same assms(2,3) have "os_makedirs A (p @ r) = Inr A'" "os_makedirs B (p @ r) = Inr B'"
      by (simp_all add: ensure_dir_def q)
    from makedirs_below [OF this(1)] makedirs_below [OF this(2)] assms(1)
    show ?thesis by (auto split: option.splits)
  qed
qed

text \<open>What Discovery reads of the input tree.\<close>

lemma listdir_Inr:
  "os_listdir fs p = Inr names \<longleftrightarrow> (\<exists>es. lookup fs p = Some (Dir es) \<and> names = map fst es)"
  by (auto simp: os_listdir_def split: option.splits node.splits)

lemma reads_same:
  assumes "lookup A p = lookup B p"
  shows "os_listdir A p = Inr names \<Longrightarrow> os_listdir B p = Inr names"
    and "os_path_isdir A (os_path_join p c) = os_path_isdir B (os_path_join p c)"
    and "os_listdir A (os_path_join p c) = Inr names \<Longrightarrow> os_listdir B (os_path_join p c) = Inr names"
proof -
  have below: "lookup A (p @ [c]) = lookup B (p @ [c])"
    by (simp only: lookup_append assms)
  then show "os_path_isdir A (os_path_join p c) = os_path_isdir B (os_path_join p c)"
    by (simp only: os_path_isdir_def os_path_join_def)
  show "os_listdir A p = Inr names \<Longrightarrow> os_listdir B p = Inr names"
    by (simp only: listdir_Inr assms)
  show "os_listdir A (os_path_join p c) = Inr names \<Longrightarrow> os_listdir B (os_path_join p c) = Inr names"
    by (simp only: listdir_Inr os_path_join_def below)
qed

lemma isdir_listdir:
  "os_path_isdir fs p \<Longrightarrow> \<exists>names. os_listdir fs p = Inr names"
  by (auto simp: os_path_isdir_def listdir_Inr split: option.splits node.splits)

text \<open>One pass of the loop over the class folders.\<close>

lemma loop_skip:
  "\<not> os_path_isdir fs (os_path_join input_dir c) \<Longrightarrow>
     class_folder_loop fs input_dir output_dir (c # cs) acc
       = class_folder_loop fs input_dir output_dir cs acc"
  by (simp add: Let_def)

lemma loop_enter:
  assumes "os_path_isdir fs (os_path_join input_dir c)"
    and "class_folder_loop fs input_dir output_dir (c # cs) acc = Inr r"
  obtains fs1 image_names where
    "ensure_dir fs (os_path_join output_dir c) = Inr fs1"
    and "os_listdir fs1 (os_path_join input_dir c) = Inr image_names"
    and "class_folder_loop fs1 input_dir output_dir cs
           (acc @ map (\<lambda>image_name. (os_path_join (os_path_join input_dir c) image_name,
                                        os_path_join (os_path_join output_dir c) image_name))
                    image_names) = Inr r"
  using assms by (auto simp: Let_def split: sum.splits)

text \<open>Two runs of the loop on filesystems with the same input tree.\<close>

lemma loop_same_items:
  assumes "lookup A input_dir = lookup B input_dir"
    and "class_folder_loop A input_dir output_dir names acc = Inr (itemsA, A')"
    and "class_folder_loop B input_dir output_dir names acc = Inr (itemsB, B')"
  shows "itemsA = itemsB"
  using assms
proof (induction names arbitrary: A B acc)
  case Nil
  then show ?case by simp
next
  case (Cons c cs)
  note same = reads_same [OF Cons.prems(1)]
  show ?case
  proof (cases "os_path_isdir A (os_path_join input_dir c)")
    case False
    then have FalseB: "\<not> os_path_isdir B (os_path_join input_dir c)" by (simp add: same(2))
    from Cons.prems(2) have a: "class_folder_loop A input_dir output_dir cs acc = Inr (itemsA, A')"
      by (simp only: loop_skip [OF False])
    from Cons.prems(3) have b: "class_folder_loop B input_dir output_dir cs acc = Inr (itemsB, B')"
      by (simp only: loop_skip [OF FalseB])
    from Cons.IH [OF Cons.prems(1) a b] show ?thesis .
  next
    case True
    then have TrueB: "os_path_isdir B (os_path_join input_dir c)" by (simp add: same(2))
    from loop_enter [OF True Cons.prems(2)] obtain A1 imgsA where
      a: "ensure_dir A (os_path_join output_dir c) = Inr A1"
         "os_listdir A1 (os_path_join input_dir c) = Inr imgsA"
         "class_folder_loop A1 input_dir output_dir cs
            (acc @ map (\<lambda>image_name. (os_path_join (os_path_join input_dir c) image_name,
                                         os_path_join (os_path_join output_dir c) image_name))
                     imgsA) = Inr (itemsA, A')"
      by blast
    from loop_enter [OF TrueB Cons.prems(3)] obtain B1 imgsB where
      b: "ensure_dir B (os_path_join output_dir c) = Inr B1"
         "os_listdir B1 (os_path_join input_dir c) = Inr imgsB"
         "class_folder_loop B1 input_dir output_dir cs
            (acc @ map (\<lambda>image_name. (os_path_join (os_path_join input_dir c) image_name,
                                         os_path_join (os_path_join output_dir c) image_name))
                     imgsB) = Inr (itemsB, B')"
      by blast
    have same1: "lookup A1 input_dir = lookup B1 input_dir"
      by (rule ensure_dir_same_subtree [OF Cons.prems(1) a(1) b(1)])
    have "imgsA = imgsB"
      using reads_same(3) [OF same1 a(2)] b(2) by simp
    with b(3) have "class_folder_loop B1 input_dir output_dir cs
            (acc @ map (\<lambda>image_name. (os_path_join (os_path_join input_dir c) image_name,
                                         os_path_join (os_path_join output_dir c) image_name))
                     imgsA) = Inr (itemsB, B')"
      by simp
    from Cons.IH [OF same1 a(3) this] show ?thesis .
  qed
qed

lemma discovery_cases:
  assumes "get_all_image_paths fs input_dir output_dir = Inr (items, fs')"
  obtains fs1 names where "ensure_dir fs output_dir = Inr fs1"
    and "os_listdir fs1 input_dir = Inr names"
    and "class_folder_loop fs1 input_dir output_dir names [] = Inr (items, fs')"
  using assms by (auto simp: get_all_image_paths_def split: sum.splits)

lemma discovery_same_items:
  assumes "lookup A input_dir = lookup B input_dir"
    and "get_all_image_paths A input_dir output_dir = Inr (itemsA, A')"
    and "get_all_image_paths B input_dir output_dir = Inr (itemsB, B')"
  shows "itemsA = itemsB"
proof -
  from discovery_cases [OF assms(2)] obtain A1 namesA where
    a: "ensure_dir A output_dir = Inr A1" "os_listdir A1 input_dir = Inr namesA"
       "class_folder_loop A1 input_dir output_dir namesA [] = Inr (itemsA, A')"
    by blast
  from discovery_cases [OF assms(3)] obtain B1 namesB where
    b: "ensure_dir B output_dir = Inr B1" "os_listdir B1 input_dir = Inr namesB"
       "class_folder_loop B1 input_dir output_dir namesB [] = Inr (itemsB, B')"
    by blast
  have same1: "lookup A1 input_dir = lookup B1 input_dir"
    by (rule ensure_dir_same_subtree [OF assms(1) a(1) b(1)])
  have "namesA = namesB"
    using reads_same(1) [OF same1 a(2)] b(2) by simp
  with b(3) have "class_folder_loop B1 input_dir output_dir namesA [] = Inr (itemsB, B')"
    by simp
  from loop_same_items [OF same1 a(3) this] show ?thesis .
qed

text \<open>A run with the output root outside the input root, and the run after it.\<close>

lemma prefix_of_child: "prefix p (q @ [c]) \<Longrightarrow> \<not> prefix p q \<Longrightarrow> p = q @ [c]"
  by simp

lemma ensure_dir_outside:
  assumes "ensure_dir fs (os_path_join output_dir c) = Inr fs1"
    and "\<not> prefix input_dir output_dir" and "os_path_exists fs input_dir"
  shows "lookup fs1 input_dir = lookup fs input_dir"
proof (cases "prefix input_dir (os_path_join output_dir c)")
  case False
  with assms(1) show ?thesis by (rule ensure_dir_frame)
next
  case True
  with assms(2) have "input_dir = os_path_join output_dir c"
    by (simp add: os_path_join_def)
  with assms(3) have "os_path_exists fs (os_path_join output_dir c)" by simp
  with assms(1) show ?thesis by (simp add: ensure_dir_existing)
qed

lemma loop_post:
  assumes "class_folder_loop fs input_dir output_dir names acc = Inr (items, fs')"
    and "\<not> prefix input_dir output_dir" and "os_path_exists fs input_dir"
  shows "lookup fs' input_dir = lookup fs input_dir"
    and "os_path_exists fs p \<Longrightarrow> os_path_exists fs' p"
    and "c \<in> set names \<Longrightarrow> os_path_isdir fs (os_path_join input_dir c)
           \<Longrightarrow> os_path_exists fs' (os_path_join output_dir c)"
  using assms(1,3)
proof (induction names arbitrary: fs acc p c)
  case Nil
  {
    case 1 then show ?case by simp
  next
    case 2 then show ?case by simp
  next
    case 3 then show ?case by simp
  }
next
  case (Cons d ds)
  {
    case 1
    show ?case
    proof (cases "os_path_isdir fs (os_path_join input_dir d)")
      case False
      from 1(1) have "class_folder_loop fs input_dir output_dir ds acc = Inr (items, fs')"
        by (simp only: loop_skip [OF False])
      from Cons.IH(1) [OF this 1(2)] show ?thesis .
    next
      case True
      from loop_enter [OF True 1(1)] obtain fs1 imgs where
        s: "ensure_dir fs (os_path_join output_dir d) = Inr fs1"
           "class_folder_loop fs1 input_dir output_dir ds
              (acc @ map (\<lambda>image_name. (os_path_join (os_path_join input_dir d) image_name,
                                           os_path_join (os_path_join output_dir d) image_name))
                       imgs) = Inr (items, fs')"
        by blast
      have l: "lookup fs1 input_dir = lookup fs input_dir"
        by (rule ensure_dir_outside [OF s(1) assms(2) 1(2)])
      have "os_path_exists fs1 input_dir"
        by (rule ensure_dir_keeps [OF s(1) 1(2)])
      from Cons.IH(1) [OF s(2) this] l show ?thesis by simp
    qed
  next
    case 2
    show ?case
    proof (cases "os_path_isdir fs (os_path_join input_dir d)")
      case False
      from 2(2) have "class_folder_loop fs input_dir output_dir ds acc = Inr (items, fs')"
        by (simp only: loop_skip [OF False])
      from Cons.IH(2) [OF 2(1) this 2(3)] show ?thesis .
    next
      case True
      from loop_enter [OF True 2(2)] obtain fs1 imgs where
        s: "ensure_dir fs (os_path_join output_dir d) = Inr fs1"
           "class_folder_loop fs1 input_dir output_dir ds
              (acc @ map (\<lambda>image_name. (os_path_join (os_path_join input_dir d) image_name,
                                           os_path_join (os_path_join output_dir d) image_name))
                       imgs) = Inr (items, fs')"
        by blast
      have "os_path_exists fs1 input_dir"
        by (rule ensure_dir_keeps [OF s(1) 2(3)])
      moreover have "os_path_exists fs1 p"
        by (rule ensure_dir_keeps [OF s(1) 2(1)])
      ultimately show ?thesis using Cons.IH(2) [OF _ s(2)] by blast
    qed
  next
    case 3
    show ?case
    proof (cases "os_path_isdir fs (os_path_join input_dir d)")
      case False
      with 3(2) have "c \<noteq> d" by blast
      with 3(1) have c: "c \<in> set ds" by simp
      from 3(3) have "class_folder_loop fs input_dir output_dir ds acc = Inr (items, fs')"
        by (simp only: loop_skip [OF False])
      from Cons.IH(3) [OF c 3(2) this 3(4)] show ?thesis .
    next
      case True
      from loop_enter [OF True 3(3)] obtain fs1 imgs where
        s: "ensure_dir fs (os_path_join output_dir d) = Inr fs1"
           "class_folder_loop fs1 input_dir output_dir ds
              (acc @ map (\<lambda>image_name. (os_path_join (os_path_join input_dir d) image_name,
                                           os_path_join (os_path_join output_dir d) image_name))
                       imgs) = Inr (items, fs')"
        by blast
      have l: "lookup fs1 input_dir = lookup fs input_dir"
        by (rule ensure_dir_outside [OF s(1) assms(2) 3(4)])
      have e: "os_path_exists fs1 input_dir"
        by (rule ensure_dir_keeps [OF s(1) 3(4)])
      show ?thesis
      proof (cases "c = d")
        case True
        have "os_path_exists fs1 (os_path_join output_dir d)"
          by (rule ensure_dir_creates [OF s(1)])
        from Cons.IH(2) [OF this s(2) e] True show ?thesis by simp
      next
        case False
        with 3(1) have "c \<in> set ds" by simp
        moreover have "os_path_isdir fs1 (os_path_join input_dir c)"
          using 3(2) reads_same(2) [OF l, of c] by simp
        ultimately show ?thesis using Cons.IH(3) [OF _ _ s(2) e] by blast
      qed
    qed
  }
qed

lemma loop_rerun:
  assumes "\<And>c. c \<in> set names \<Longrightarrow> os_path_isdir F (os_path_join input_dir c)
             \<Longrightarrow> os_path_exists F (os_path_join output_dir c)"
  shows "\<exists>items. class_folder_loop F input_dir output_dir names acc = Inr (items, F)"
  using assms
proof (induction names arbitrary: acc)
  case Nil
  show ?case by simp
next
  case (Cons d ds)
  have rest: "\<exists>items. class_folder_loop F input_dir output_dir ds acc' = Inr (items, F)" for acc'
    by (rule Cons.IH) (simp add: Cons.prems)
  show ?case
  proof (cases "os_path_isdir F (os_path_join input_dir d)")
    case False
    from rest [of acc] show ?thesis by (simp only: loop_skip [OF False])
  next
    case True
    then have "os_path_exists F (os_path_join output_dir d)" by (simp add: Cons.prems)
    then have e: "ensure_dir F (os_path_join output_dir d) = Inr F" by (rule ensure_dir_existing)
    from isdir_listdir [OF True] obtain imgs where
      l: "os_listdir F (os_path_join input_dir d) = Inr imgs" by blast
    from True e l rest show ?thesis by (simp add: Let_def)
  qed
qed

text \<open>An entry of the input root that is a plain file.\<close>

lemma listed_not_dir:
  assumes "os_listdir fs p = Inr names" and "name \<in> set names"
    and "\<not> os_path_isdir fs (os_path_join p name)"
  shows "lookup fs (os_path_join p name) = Some File"
proof -
  from assms(1) obtain es where p: "lookup fs p = Some (Dir es)" and names: "names = map fst es"
    by (auto simp: listdir_Inr)
  from assms(2) names have "name \<in> fst ` set es" by simp
  then obtain m where m: "map_of es name = Some m"
    by (metis domD dom_map_of_conv_image_fst)
  have l: "lookup fs (os_path_join p name) = Some m"
    by (simp add: os_path_join_def lookup_append p m)
  with assms(3) show ?thesis
    by (cases m) (simp_all add: os_path_isdir_def)
qed

lemma loop_skips_file:
  assumes "class_folder_loop fs input_dir output_dir names acc = Inr (items, fs')"
    and "lookup fs (os_path_join input_dir name) = Some File"
  shows "lookup fs' (os_path_join output_dir name) = lookup fs (os_path_join output_dir name)
       \<and> set items \<subseteq> set acc \<union>
             {(os_path_join (os_path_join input_dir c) i, os_path_join (os_path_join output_dir c) i)
              | c i. c \<noteq> name}"
  using assms
proof (induction names arbitrary: fs acc)
  case Nil
  then show ?case by auto
next
  case (Cons d ds)
  show ?case
  proof (cases "os_path_isdir fs (os_path_join input_dir d)")
    case False
    from Cons.prems(1) have "class_folder_loop fs input_dir output_dir ds acc = Inr (items, fs')"
      by (simp only: loop_skip [OF False])
    from Cons.IH [OF this Cons.prems(2)] show ?thesis .
  next
    case True
    with Cons.prems(2) have d: "d \<noteq> name"
      by (auto simp: os_path_isdir_def)
    let ?new = "\<lambda>imgs. map (\<lambda>image_name. (os_path_join (os_path_join input_dir d) image_name,
                                            os_path_join (os_path_join output_dir d) image_name)) imgs"
    from loop_enter [OF True Cons.prems(1)] obtain fs1 imgs where
      s: "ensure_dir fs (os_path_join output_dir d) = Inr fs1"
         "class_folder_loop fs1 input_dir output_dir ds (acc @ ?new imgs) = Inr (items, fs')"
      by blast
    have "\<not> prefix (os_path_join output_dir name) (os_path_join output_dir d)"
      using d by (simp add: os_path_join_def)
    with s(1) have out: "lookup fs1 (os_path_join output_dir name)
                           = lookup fs (os_path_join output_dir name)"
      by (rule ensure_dir_frame)
    have plain: "lookup fs1 (os_path_join input_dir name) = Some File"
      by (rule ensure_dir_keeps_File [OF s(1) Cons.prems(2)])
    define S where
      "S = {(os_path_join (os_path_join input_dir c) i, os_path_join (os_path_join output_dir c) i)
            | c i. c \<noteq> name}"
    have new_sub: "set (?new imgs) \<subseteq> S"
      using d by (auto simp: S_def)
    from Cons.IH [OF s(2) plain]
    have same: "lookup fs' (os_path_join output_dir name)
                  = lookup fs1 (os_path_join output_dir name)"
      and sub: "set items \<subseteq> set (acc @ ?new imgs) \<union> S"
      by (simp_all only: S_def)
    from sub new_sub have "set items \<subseteq> set acc \<union> S"
      by (simp only: set_append) blast
    with same out show ?thesis
      by (simp only: S_def)
  qed
qed




text \<open>
  Claim C1. For every item list of length \<open>L\<close> and every worker count \<open>N > 0\<close> the partition
  step returns exactly \<open>N\<close> chunks; their lengths sum to \<open>L\<close>; the first \<open>L mod N\<close> chunks
  have \<open>L div N + 1\<close> items and the others \<open>L div N\<close>; and the chunks, concatenated in
  worker-index order, are the original list.
\<close>

theorem array_split_balanced_partition:
  assumes "0 < n"
  shows "\<exists>chunks. array_split items n = Inr chunks
           \<and> length chunks = nat n
           \<and> sum_list (map length chunks) = length items
           \<and> (\<forall>i<nat n. length (chunks ! i)
                 = (if i < length items mod nat n then length items div nat n + 1
                    else length items div nat n))
           \<and> concat chunks = items"
proof -
  let ?N = "nat n"
  let ?L = "length items"
  let ?chunks = "map (\<lambda>i. slice items (div_point ?L ?N i) (div_point ?L ?N (Suc i))) [0..<?N]"
  have N: "0 < ?N" using assms by simp
  have split: "array_split items n = Inr ?chunks"
    by (rule array_split_chunks [OF assms])
  have len: "length ?chunks = ?N" by simp
  have cat: "concat ?chunks = items"
    by (simp only: concat_slices div_point_last [OF N] take_all order_refl)
  have "sum_list (map length ?chunks) = length (concat ?chunks)"
    by (simp only: length_concat)
  then have total: "sum_list (map length ?chunks) = ?L"
    by (simp only: cat)
  have each: "\<forall>i<?N. length (?chunks ! i)
                = (if i < ?L mod ?N then ?L div ?N + 1 else ?L div ?N)"
  proof (intro allI impI)
    fix i assume i: "i < ?N"
    then have "?chunks ! i = slice items (div_point ?L ?N i) (div_point ?L ?N (Suc i))"
      by simp
    then show "length (?chunks ! i)
                = (if i < ?L mod ?N then ?L div ?N + 1 else ?L div ?N)"
      by (simp only: length_slice_div_point [OF N i])
  qed
  from split len total each cat show ?thesis by blast
qed

theorem array_split_balanced_partition_witness:
  "(0::int) < 3
   \<and> (\<exists>chunks. array_split ''abcdefghij'' 3 = Inr chunks
         \<and> length chunks = nat 3
         \<and> sum_list (map length chunks) = length ''abcdefghij''
         \<and> (\<forall>i<nat 3. length (chunks ! i)
               = (if i < length ''abcdefghij'' mod nat 3 then length ''abcdefghij'' div nat 3 + 1
                  else length ''abcdefghij'' div nat 3))
         \<and> concat chunks = ''abcdefghij'')"
  using array_split_balanced_partition [of 3 "''abcdefghij''"] by simp

text \<open>
  Claim C2, amended. The nodes are numbered from 1: process \<open>i\<close> of \<open>0..N-1\<close> runs as
  node \<open>i + 1\<close>. For every worker count \<open>N > 0\<close> and every schedule, once \<open>join\<close> has
  returned each node has published exactly once, the result store has exactly the keys
  \<open>1..N\<close>, the count stored for node \<open>i + 1\<close> is the length of chunk \<open>i\<close>, and the counts sum
  to the number of discovered items. As stated, with worker ids \<open>0..N-1\<close>, the claim fails:
  the store has no key 0.
\<close>

theorem results_one_per_node:
  assumes "get_all_image_paths fs INPUT_DIR (OUTPUT_DIR_distributed cwd) = Inr (items, fs')"
    and "0 < n"
  shows "\<exists>chunks. array_split items n = Inr chunks
           \<and> mset (published (trace (main_distributed fs cwd env clk n sched)))
               = mset (map (node_result clk chunks) [0..<nat n])
           \<and> distinct (map fst (results_dict (main_distributed fs cwd env clk n sched)))
           \<and> fst ` set (results_dict (main_distributed fs cwd env clk n sched)) = {1..nat n}
           \<and> map (\<lambda>i. map_of (results_dict (main_distributed fs cwd env clk n sched)) (i + 1))
                 [0..<nat n]
               = map (\<lambda>i. Some (length (chunks ! i),
                                 node_end_time clk (i + 1) - node_start_time clk (i + 1)))
                   [0..<nat n]
           \<and> sum_list (map (\<lambda>(node_id, result). fst result)
                 (results_dict (main_distributed fs cwd env clk n sched))) = length items"
proof -
  obtain chunks where split: "array_split items n = Inr chunks"
    using array_split_positive [OF assms(2)] by blast
  let ?r = "main_distributed fs cwd env clk n sched"
  let ?nodes = "run_nodes sched (node_processes env clk n chunks)"
  let ?want = "map (node_result clk chunks) [0..<nat n]"
  have d: "results_dict ?r = published ?nodes"
    by (simp add: main_distributed_run [OF assms(1) split] Let_def)
  have "published (trace ?r) = published ?nodes"
    by (simp add: main_distributed_run [OF assms(1) split] Let_def published_append
        published_baseline published_summary_lines)
  then have tr: "mset (published (trace ?r)) = mset ?want"
    by (simp only: mset_published_nodes)
  have m: "mset (results_dict ?r) = mset ?want"
    by (simp only: d mset_published_nodes)
  then have keys: "mset (map fst (results_dict ?r)) = mset (map fst ?want)"
    by (metis mset_map)
  have dist: "distinct (map fst (results_dict ?r))"
    using keys distinct_node_results [of clk chunks "nat n"]
    by (metis mset_eq_imp_distinct_iff)
  have "set (map fst (results_dict ?r)) = set (map fst ?want)"
    using keys by (rule mset_eq_setD)
  also have "\<dots> = {1..nat n}"
    by (simp only: fst_node_result set_map set_upt image_Suc_atLeastLessThan
        atLeastLessThanSuc_atLeastAtMost One_nat_def)
  finally have dom: "fst ` set (results_dict ?r) = {1..nat n}" by simp
  have look: "map (\<lambda>i. map_of (results_dict ?r) (i + 1)) [0..<nat n]
                = map (\<lambda>i. Some (length (chunks ! i),
                                  node_end_time clk (i + 1) - node_start_time clk (i + 1)))
                    [0..<nat n]"
  proof (rule map_cong [OF refl])
    fix i assume "i \<in> set [0..<nat n]"
    then have "node_result clk chunks i \<in> set ?want" by simp
    then have "node_result clk chunks i \<in> set (results_dict ?r)"
      using m by (metis mset_eq_setD)
    then show "map_of (results_dict ?r) (i + 1)
                 = Some (length (chunks ! i),
                         node_end_time clk (i + 1) - node_start_time clk (i + 1))"
      using dist by (simp add: node_result_def)
  qed
  have total: "sum_list (map (\<lambda>(node_id, result). fst result) (results_dict ?r)) = length items"
    by (rule results_counts [OF split m])
  show ?thesis
    by (rule exI [of _ chunks]) (intro conjI split tr dist dom look total)
qed

theorem results_one_per_node_witness:
  "get_all_image_paths example_fs INPUT_DIR (OUTPUT_DIR_distributed example_cwd)
     = Inr (example_items, example_fs')
   \<and> (0::int) < 2
   \<and> (\<exists>chunks. array_split example_items 2 = Inr chunks
         \<and> fst ` set (results_dict
                (main_distributed example_fs example_cwd example_env example_clock 2 [1, 0, 1]))
             = {1..nat 2}
         \<and> sum_list (map (\<lambda>(node_id, result). fst result)
               (results_dict
                 (main_distributed example_fs example_cwd example_env example_clock 2 [1, 0, 1])))
             = length example_items)"
proof -
  from results_one_per_node [OF example_discovery, of 2 example_env example_clock "[1, 0, 1]"]
  obtain chunks where "array_split example_items 2 = Inr chunks"
    and "fst ` set (results_dict
           (main_distributed example_fs example_cwd example_env example_clock 2 [1, 0, 1]))
         = {1..nat 2}"
    and "sum_list (map (\<lambda>(node_id, result). fst result)
           (results_dict
             (main_distributed example_fs example_cwd example_env example_clock 2 [1, 0, 1])))
         = length example_items"
    by auto
  with example_discovery show ?thesis by simp
qed

theorem worker_id_zero_counterexample:
  "\<not> (\<forall>worker_id \<in> {0..<2}.
        worker_id \<in> fst ` set (results_dict
          (main_distributed example_fs example_cwd example_env example_clock 2 [])))"
proof -
  have "results_dict (main_distributed example_fs example_cwd example_env example_clock 2 [])
          = [(1, (2, 1)), (2, (1, 1))]"
    by code_simp
  then have "0 \<notin> fst ` set (results_dict
          (main_distributed example_fs example_cwd example_env example_clock 2 []))"
    by simp
  moreover have "(0::nat) \<in> {0..<2}" by simp
  ultimately show ?thesis by blast
qed






text \<open>
  Claim C5, amended. With a worker count of 0 the run fails at the partition step, with
  the \<open>ValueError\<close> of \<open>np.array_split\<close>, before any node is started and before anything
  is published; but the sequential baseline comes first in \<open>main\<close>, so by then Transform
  has been called on every discovered item. As stated (no Transform call before the
  failure) the claim fails on the example tree.
\<close>

theorem zero_nodes_fail_after_baseline:
  assumes "get_all_image_paths fs INPUT_DIR (OUTPUT_DIR_distributed cwd) = Inr (items, fs')"
  shows "raised (main_distributed fs cwd env clk 0 sched) = Some ValueError
       \<and> imread_calls (trace (main_distributed fs cwd env clk 0 sched)) = map fst items
       \<and> files_written (trace (main_distributed fs cwd env clk 0 sched))
           = map snd (filter (\<lambda>item. env item = Processed) items)
       \<and> nodes_started (trace (main_distributed fs cwd env clk 0 sched)) = []
       \<and> published (trace (main_distributed fs cwd env clk 0 sched)) = []
       \<and> results_dict (main_distributed fs cwd env clk 0 sched) = []"
proof -
  have "array_split items 0 = Inl ValueError"
    by (rule array_split_not_positive) simp
  from main_distributed_no_split [OF assms this]
  have "main_distributed fs cwd env clk 0 sched
          = \<lparr>raised = Some ValueError, trace = baseline env clk 0 items, results_dict = []\<rparr>" .
  moreover have "files_written (baseline env clk 0 items)
                   = map snd (filter (\<lambda>item. env item = Processed) items)"
    by (simp add: baseline_def files_written_append files_written_pass)
  ultimately show ?thesis
    by (simp add: imread_calls_baseline nodes_started_baseline published_baseline)
qed

theorem zero_nodes_fail_after_baseline_witness:
  "get_all_image_paths example_fs INPUT_DIR (OUTPUT_DIR_distributed example_cwd)
     = Inr (example_items, example_fs')
   \<and> raised (main_distributed example_fs example_cwd example_env example_clock 0 [])
       = Some ValueError
   \<and> length (imread_calls
         (trace (main_distributed example_fs example_cwd example_env example_clock 0 []))) = 3
   \<and> nodes_started
         (trace (main_distributed example_fs example_cwd example_env example_clock 0 [])) = []"
  using zero_nodes_fail_after_baseline [OF example_discovery, of example_env example_clock "[]"]
    example_discovery
  by (simp add: example_items_def)

theorem transform_before_failure_counterexample:
  "\<not> (raised (main_distributed example_fs example_cwd example_env example_clock 0 []) \<noteq> None
      \<and> imread_calls
            (trace (main_distributed example_fs example_cwd example_env example_clock 0 [])) = [])"
proof -
  have "imread_calls
          (trace (main_distributed example_fs example_cwd example_env example_clock 0 []))
        = [[''content'', ''data_set'', ''cats'', ''a.png''],
           [''content'', ''data_set'', ''cats'', ''b.png''],
           [''content'', ''data_set'', ''dogs'', ''c.png'']]"
    by code_simp
  then show ?thesis by simp
qed

text \<open>
  Claim C6. Once Discovery and the partition step have succeeded, the efficiency is
  \<open>sequential_time / parallel_time\<close>, computed and printed once, as the last step, after
  every node has published its result; when \<open>parallel_time\<close> is exactly zero the division
  raises \<open>ZeroDivisionError\<close>, the run ends with that error and no efficiency is printed.
\<close>

theorem efficiency_once_after_join:
  assumes "get_all_image_paths fs INPUT_DIR (OUTPUT_DIR_distributed cwd) = Inr (items, fs')"
    and "0 < n"
    and "parallel_time = master_end_time clk - master_start_time clk"
    and "sequential_time = seq_end_time clk - seq_start_time clk"
  shows "raised (main_distributed fs cwd env clk n sched)
           = (if parallel_time = 0 then Some ZeroDivisionError else None)
       \<and> efficiencies (trace (main_distributed fs cwd env clk n sched))
           = (if parallel_time = 0 then [] else [sequential_time / parallel_time])
       \<and> (\<exists>before. trace (main_distributed fs cwd env clk n sched)
               = before @ (if parallel_time = 0 then []
                           else [Print (Efficiency (sequential_time / parallel_time))])
             \<and> efficiencies before = []
             \<and> length (published before) = nat n
             \<and> fst ` set (published before) = {1..nat n})"
proof -
  obtain chunks where split: "array_split items n = Inr chunks"
    using array_split_positive [OF assms(2)] by blast
  let ?r = "main_distributed fs cwd env clk n sched"
  let ?nodes = "run_nodes sched (node_processes env clk n chunks)"
  let ?before = "baseline env clk n items @ ?nodes @ [Print SummaryHeader]
                 @ summary_lines (published ?nodes) @ [Print (TotalDistributedTime parallel_time)]"
  let ?last = "if parallel_time = 0 then []
               else [Print (Efficiency (sequential_time / parallel_time))]"
  have run: "?r = \<lparr>raised = (if parallel_time = 0 then Some ZeroDivisionError else None),
                    trace = ?before @ ?last, results_dict = published ?nodes\<rparr>"
    by (simp add: main_distributed_run [OF assms(1) split] Let_def assms(3,4))
  have e: "efficiencies ?before = []"
    by (simp add: efficiencies_append efficiencies_baseline efficiencies_nodes
        efficiencies_summary_lines)
  have p: "published ?before = published ?nodes"
    by (simp add: published_append published_baseline published_summary_lines)
  have 1: "raised ?r = (if parallel_time = 0 then Some ZeroDivisionError else None)"
    by (simp only: run) simp
  have tr: "trace ?r = ?before @ ?last"
    by (simp only: run) simp
  have 2: "efficiencies (trace ?r)
             = (if parallel_time = 0 then [] else [sequential_time / parallel_time])"
  proof -
    have "efficiencies (trace ?r) = efficiencies ?before @ efficiencies ?last"
      by (simp only: tr efficiencies_append [of ?before ?last])
    then show ?thesis by (simp only: e) simp
  qed
  have 3: "length (published ?before) = nat n"
    by (simp only: p published_nodes_length)
  have 4: "fst ` set (published ?before) = {1..nat n}"
    by (simp only: p published_nodes_keys)
  show ?thesis
    by (intro conjI 1 2 exI [of _ ?before] tr e 3 4)
qed

theorem efficiency_once_after_join_witness:
  "get_all_image_paths example_fs INPUT_DIR (OUTPUT_DIR_distributed example_cwd)
     = Inr (example_items, example_fs')
   \<and> (0::int) < 2
   \<and> raised (main_distributed example_fs example_cwd example_env example_clock 2 [0, 1]) = None
   \<and> efficiencies (trace (main_distributed example_fs example_cwd example_env example_clock 2
         [0, 1])) = [2]
   \<and> raised (main_distributed example_fs example_cwd example_env example_clock_stopped 2 [0, 1])
       = Some ZeroDivisionError
   \<and> efficiencies (trace (main_distributed example_fs example_cwd example_env
         example_clock_stopped 2 [0, 1])) = []"
proof -
  have par: "(2::real) = master_end_time example_clock - master_start_time example_clock"
    and seq: "(4::real) = seq_end_time example_clock - seq_start_time example_clock"
    and par0: "(0::real) = master_end_time example_clock_stopped
                           - master_start_time example_clock_stopped"
    and seq0: "(4::real) = seq_end_time example_clock_stopped
                           - seq_start_time example_clock_stopped"
    by (simp_all add: example_clock_def example_clock_stopped_def)
  have n: "(0::int) < 2" by simp
  from efficiency_once_after_join [OF example_discovery n par seq, of example_env "[0, 1]"]
  have moving:
    "raised (main_distributed example_fs example_cwd example_env example_clock 2 [0, 1]) = None
     \<and> efficiencies (trace (main_distributed example_fs example_cwd example_env example_clock 2
           [0, 1])) = [2]"
    by simp
  from efficiency_once_after_join [OF example_discovery n par0 seq0, of example_env "[0, 1]"]
  have stopped:
    "raised (main_distributed example_fs example_cwd example_env example_clock_stopped 2 [0, 1])
       = Some ZeroDivisionError
     \<and> efficiencies (trace (main_distributed example_fs example_cwd example_env
           example_clock_stopped 2 [0, 1])) = []"
    by simp
  from example_discovery n moving stopped show ?thesis
    by (intro conjI) (erule conjunct1 conjunct2 | assumption)+
qed

text \<open>
  Claim C7. Whatever the order in which the nodes finish and write to the result store,
  the per-node lines of the summary come in ascending order of node id, and they are the
  same lines for every schedule; when Discovery and the partition step succeed they are the
  lines of nodes \<open>1..N\<close>, each with the length of its chunk.
\<close>

theorem summary_sorted_by_node_id:
  "sorted_wrt (<) (map fst (reported (trace (main_distributed fs cwd env clk n sched))))
   \<and> reported (trace (main_distributed fs cwd env clk n sched))
       = reported (trace (main_distributed fs cwd env clk n sched'))
   \<and> (get_all_image_paths fs INPUT_DIR (OUTPUT_DIR_distributed cwd) = Inr (items, fs')
        \<and> array_split items n = Inr chunks
        \<longrightarrow> reported (trace (main_distributed fs cwd env clk n sched))
              = map (node_line clk chunks) [0..<nat n])"
proof (intro conjI impI)
  show "sorted_wrt (<) (map fst (reported (trace (main_distributed fs cwd env clk n sched))))"
    by (rule reported_main_distributed_cases [of fs cwd env clk n sched sched])
       (simp_all only: node_lines_ascending list.map sorted_wrt.simps)
  show "reported (trace (main_distributed fs cwd env clk n sched))
          = reported (trace (main_distributed fs cwd env clk n sched'))"
    by (rule reported_main_distributed_cases [of fs cwd env clk n sched sched']) simp_all
next
  assume "get_all_image_paths fs INPUT_DIR (OUTPUT_DIR_distributed cwd) = Inr (items, fs')
          \<and> array_split items n = Inr chunks"
  then show "reported (trace (main_distributed fs cwd env clk n sched))
               = map (node_line clk chunks) [0..<nat n]"
    by (simp add: reported_main_distributed)
qed

theorem summary_sorted_by_node_id_witness:
  "get_all_image_paths example_fs INPUT_DIR (OUTPUT_DIR_distributed example_cwd)
     = Inr (example_items, example_fs')
   \<and> array_split example_items 2 = Inr example_chunks
   \<and> reported (trace (main_distributed example_fs example_cwd example_env example_clock 2
         [1, 1, 1, 1, 1, 1]))
       = [(1, 2, 1), (2, 1, 1)]
   \<and> published (trace (main_distributed example_fs example_cwd example_env example_clock 2
         [1, 1, 1, 1, 1, 1]))
       = [(2, (1, 1)), (1, (2, 1))]"
proof -
  have lines: "map (node_line example_clock example_chunks) [0..<nat 2] = [(1, 2, 1), (2, 1, 1)]"
    by code_simp
  have order: "published (trace (main_distributed example_fs example_cwd example_env
                 example_clock 2 [1, 1, 1, 1, 1, 1]))
               = [(2, (1, 1)), (1, (2, 1))]"
    by code_simp
  have "reported (trace (main_distributed example_fs example_cwd example_env example_clock 2
          [1, 1, 1, 1, 1, 1]))
        = map (node_line example_clock example_chunks) [0..<nat 2]"
    using summary_sorted_by_node_id [of example_fs example_cwd example_env example_clock 2
        "[1, 1, 1, 1, 1, 1]" "[]" example_items example_fs' example_chunks]
      example_discovery example_split
    by blast
  then have "reported (trace (main_distributed example_fs example_cwd example_env example_clock 2
          [1, 1, 1, 1, 1, 1]))
        = [(1, 2, 1), (2, 1, 1)]"
    by (simp only: lines)
  with example_discovery example_split order show ?thesis
    by (intro conjI)
qed

text \<open>
  Claim C8. Discovery is a function of the input tree: a run that returns a work-item list
  returns the list of every other run on a filesystem with the same tree below the input
  root, in the same order, whatever else differs (the output folders of an earlier run,
  for one). And when the output root is not inside the input root, a run leaves the input
  tree as it was, and running Discovery again right after it succeeds, returns the
  identical list and changes nothing.
\<close>

theorem discovery_deterministic_idempotent:
  assumes "get_all_image_paths fs input_dir output_dir = Inr (items, fs1)"
  shows "(lookup fs2 input_dir = lookup fs input_dir
          \<and> get_all_image_paths fs2 input_dir output_dir = Inr (items2, fs3)
          \<longrightarrow> items2 = items)
       \<and> (\<not> prefix input_dir output_dir
          \<longrightarrow> lookup fs1 input_dir = lookup fs input_dir
              \<and> get_all_image_paths fs1 input_dir output_dir = Inr (items, fs1))"
proof (intro conjI impI)
  assume "lookup fs2 input_dir = lookup fs input_dir
          \<and> get_all_image_paths fs2 input_dir output_dir = Inr (items2, fs3)"
  then show "items2 = items"
    using discovery_same_items [OF _ _ assms, of fs2 items2 fs3] by blast
next
  assume outside: "\<not> prefix input_dir output_dir"
  from discovery_cases [OF assms] obtain fsa names where
    run: "ensure_dir fs output_dir = Inr fsa" "os_listdir fsa input_dir = Inr names"
         "class_folder_loop fsa input_dir output_dir names [] = Inr (items, fs1)"
    by blast
  have a: "lookup fsa input_dir = lookup fs input_dir"
    by (rule ensure_dir_frame [OF run(1) outside])
  have ex: "os_path_exists fsa input_dir"
    using run(2) by (auto simp: os_path_exists_def listdir_Inr)
  note post = loop_post [OF run(3) outside ex]
  show same: "lookup fs1 input_dir = lookup fs input_dir"
    by (simp only: post(1) a)
  have "os_path_exists fs1 output_dir"
    by (rule post(2) [OF ensure_dir_creates [OF run(1)]])
  then have e: "ensure_dir fs1 output_dir = Inr fs1"
    by (rule ensure_dir_existing)
  have l: "os_listdir fs1 input_dir = Inr names"
    by (rule reads_same(1) [OF post(1) [symmetric] run(2)])
  have "\<exists>items'. class_folder_loop fs1 input_dir output_dir names [] = Inr (items', fs1)"
  proof (rule loop_rerun)
    fix c assume c: "c \<in> set names" and "os_path_isdir fs1 (os_path_join input_dir c)"
    then have "os_path_isdir fsa (os_path_join input_dir c)"
      using reads_same(2) [OF post(1), of c] by simp
    with c show "os_path_exists fs1 (os_path_join output_dir c)"
      by (rule post(3))
  qed
  then obtain items' where
    "class_folder_loop fs1 input_dir output_dir names [] = Inr (items', fs1)" by blast
  with e l have again: "get_all_image_paths fs1 input_dir output_dir = Inr (items', fs1)"
    by (simp add: get_all_image_paths_def)
  from discovery_same_items [OF same again assms] have "items' = items" .
  with again show "get_all_image_paths fs1 input_dir output_dir = Inr (items, fs1)"
    by simp
qed

theorem discovery_deterministic_idempotent_witness:
  "get_all_image_paths example_fs INPUT_DIR (OUTPUT_DIR_distributed example_cwd)
     = Inr (example_items, example_fs')
   \<and> \<not> prefix INPUT_DIR (OUTPUT_DIR_distributed example_cwd)
   \<and> lookup example_fs' INPUT_DIR = lookup example_fs INPUT_DIR
   \<and> get_all_image_paths example_fs' INPUT_DIR (OUTPUT_DIR_distributed example_cwd)
       = Inr (example_items, example_fs')"
proof -
  have "\<not> prefix INPUT_DIR (OUTPUT_DIR_distributed example_cwd)"
    by (simp add: INPUT_DIR_def OUTPUT_DIR_distributed_def example_cwd_def)
  with discovery_deterministic_idempotent [OF example_discovery] example_discovery
  show ?thesis by blast
qed

text \<open>
  Claim C9. An entry directly under the input root that is not a directory is skipped by
  Discovery (the function of the thread-pool script, whose statements the distributed
  script repeats): no work item has its input path at or below the entry, none has its
  output path at or below the mirrored name, and the run leaves the mirrored path under
  the output root as it found it, so no folder is created for the entry.
\<close>

theorem discovery_skips_plain_files:
  assumes "get_all_image_paths fs input_dir output_dir = Inr (items, fs')"
    and "os_listdir fs input_dir = Inr names" and "name \<in> set names"
    and "\<not> os_path_isdir fs (os_path_join input_dir name)"
  shows "(\<forall>(input_path, output_path) \<in> set items.
            \<not> prefix (os_path_join input_dir name) input_path
            \<and> \<not> prefix (os_path_join output_dir name) output_path)
       \<and> lookup fs' (os_path_join output_dir name) = lookup fs (os_path_join output_dir name)"
proof -
  have plain: "lookup fs (os_path_join input_dir name) = Some File"
    by (rule listed_not_dir [OF assms(2,3,4)])
  from discovery_cases [OF assms(1)] obtain fs1 listed where
    run: "ensure_dir fs output_dir = Inr fs1"
         "class_folder_loop fs1 input_dir output_dir listed [] = Inr (items, fs')"
    by blast
  have "\<not> prefix (os_path_join output_dir name) output_dir"
    by (simp add: os_path_join_def)
  with run(1) have out: "lookup fs1 (os_path_join output_dir name)
                           = lookup fs (os_path_join output_dir name)"
    by (rule ensure_dir_frame)
  have "lookup fs1 (os_path_join input_dir name) = Some File"
    by (rule ensure_dir_keeps_File [OF run(1) plain])
  from loop_skips_file [OF run(2) this]
  have same: "lookup fs' (os_path_join output_dir name) = lookup fs1 (os_path_join output_dir name)"
    and sub: "set items \<subseteq>
             {(os_path_join (os_path_join input_dir c) i, os_path_join (os_path_join output_dir c) i)
              | c i. c \<noteq> name}"
    by simp_all
  have "\<not> prefix (os_path_join input_dir name) input_path
        \<and> \<not> prefix (os_path_join output_dir name) output_path"
    if "(input_path, output_path) \<in> set items" for input_path output_path
  proof -
    from that sub obtain c i where "c \<noteq> name"
      and "input_path = os_path_join (os_path_join input_dir c) i"
      and "output_path = os_path_join (os_path_join output_dir c) i"
      by blast
    then show ?thesis by (simp add: os_path_join_def)
  qed
  with same out show ?thesis by auto
qed

theorem discovery_skips_plain_files_witness:
  "get_all_image_paths example_fs INPUT_DIR (OUTPUT_DIR_distributed example_cwd)
     = Inr (example_items, example_fs')
   \<and> os_listdir example_fs INPUT_DIR = Inr [''cats'', ''readme.txt'', ''dogs'']
   \<and> ''readme.txt'' \<in> set [''cats'', ''readme.txt'', ''dogs'']
   \<and> \<not> os_path_isdir example_fs (os_path_join INPUT_DIR ''readme.txt'')
   \<and> lookup example_fs' (os_path_join (OUTPUT_DIR_distributed example_cwd) ''readme.txt'')
       = lookup example_fs (os_path_join (OUTPUT_DIR_distributed example_cwd) ''readme.txt'')
   \<and> list_all (\<lambda>(input_path, output_path).
          \<not> prefix (os_path_join INPUT_DIR ''readme.txt'') input_path) example_items"
proof -
  have l: "os_listdir example_fs INPUT_DIR = Inr [''cats'', ''readme.txt'', ''dogs'']"
    by code_simp
  have m: "''readme.txt'' \<in> set [''cats'', ''readme.txt'', ''dogs'']"
    by simp
  have n: "\<not> os_path_isdir example_fs (os_path_join INPUT_DIR ''readme.txt'')"
    by code_simp
  from discovery_skips_plain_files [OF example_discovery l m n] example_discovery l m n
  show ?thesis by (auto simp: list_all_iff)
qed

text \<open>
  Claim C10. In the thread-pool sweep every speedup that is printed is the time of the first
  pass of the sweep (the pool of one worker) divided by the time of the row's own pass;
  no other baseline enters. So the first row reports a speedup of exactly 1 whenever
  its time is not zero. Times are read as real numbers.
\<close>

theorem speedup_relative_to_first_pass:
  assumes "get_all_image_paths fs INPUT_DIR (OUTPUT_DIR_parallel cwd) = Inr (items, fs')"
    and "baseline_time = end_time clk 0 - start_time clk 0"
  shows "(\<forall>(w, t, s) \<in> set (table_rows (trace (main_parallel fs cwd env clk scheds WORKER_COUNTS))).
            t \<noteq> 0 \<and> s = baseline_time / t)
       \<and> (baseline_time \<noteq> 0 \<longrightarrow>
            take 1 (table_rows (trace (main_parallel fs cwd env clk scheds WORKER_COUNTS)))
              = [(1, baseline_time, 1)])
       \<and> ((\<forall>k<4. end_time clk k \<noteq> start_time clk k) \<longrightarrow>
            raised (main_parallel fs cwd env clk scheds WORKER_COUNTS) = None
            \<and> table_rows (trace (main_parallel fs cwd env clk scheds WORKER_COUNTS))
                = [(1, baseline_time, 1),
                   (2, end_time clk 1 - start_time clk 1,
                    baseline_time / (end_time clk 1 - start_time clk 1)),
                   (4, end_time clk 2 - start_time clk 2,
                    baseline_time / (end_time clk 2 - start_time clk 2)),
                   (8, end_time clk 3 - start_time clk 3,
                    baseline_time / (end_time clk 3 - start_time clk 3))])"
proof (intro conjI impI)
  let ?r = "main_parallel fs cwd env clk scheds WORKER_COUNTS"
  let ?results = "[(1, baseline_time), (2, end_time clk 1 - start_time clk 1),
                   (4, end_time clk 2 - start_time clk 2), (8, end_time clk 3 - start_time clk 3)]"
  note rows = table_rows_main_parallel(1) [OF assms, of env scheds]
  note err = table_rows_main_parallel(2) [OF assms, of env scheds]
  show "\<forall>(w, t, s) \<in> set (table_rows (trace ?r)). t \<noteq> 0 \<and> s = baseline_time / t"
    unfolding rows using speedup_rows_sound [of _ _ _ baseline_time ?results] by blast
  {
    assume "baseline_time \<noteq> 0"
    then have "take 1 (table_rows (fst (speedup_rows baseline_time ?results)))
                 = [(1, baseline_time, baseline_time / baseline_time)]"
      by (rule speedup_rows_first)
    then show "take 1 (table_rows (trace ?r)) = [(1, baseline_time, 1)]"
      using \<open>baseline_time \<noteq> 0\<close> by (simp only: rows) simp
  }
  {
    assume all: "\<forall>k<4. end_time clk k \<noteq> start_time clk k"
    have "end_time clk 0 \<noteq> start_time clk 0" "end_time clk 1 \<noteq> start_time clk 1"
      "end_time clk 2 \<noteq> start_time clk 2" "end_time clk 3 \<noteq> start_time clk 3"
      using all by simp_all
    then have nz: "\<forall>t \<in> snd ` set ?results. t \<noteq> 0"
      by (simp add: assms(2))
    have sp: "speedup_rows baseline_time ?results
                = (map (\<lambda>(w, t). Print (TableRow w t (baseline_time / t))) ?results, None)"
      using nz by (rule speedup_rows_all)
    show "raised ?r = None"
      by (simp only: err sp snd_conv)
    have "table_rows (trace ?r) = map (\<lambda>(w, t). (w, t, baseline_time / t)) ?results"
      by (simp only: rows sp fst_conv table_rows_map_rows)
    also have "\<dots> = [(1, baseline_time, 1),
                   (2, end_time clk 1 - start_time clk 1,
                    baseline_time / (end_time clk 1 - start_time clk 1)),
                   (4, end_time clk 2 - start_time clk 2,
                    baseline_time / (end_time clk 2 - start_time clk 2)),
                   (8, end_time clk 3 - start_time clk 3,
                    baseline_time / (end_time clk 3 - start_time clk 3))]"
      using \<open>end_time clk 0 \<noteq> start_time clk 0\<close> by (simp add: assms(2))
    finally show "table_rows (trace ?r)
                = [(1, baseline_time, 1),
                   (2, end_time clk 1 - start_time clk 1,
                    baseline_time / (end_time clk 1 - start_time clk 1)),
                   (4, end_time clk 2 - start_time clk 2,
                    baseline_time / (end_time clk 2 - start_time clk 2)),
                   (8, end_time clk 3 - start_time clk 3,
                    baseline_time / (end_time clk 3 - start_time clk 3))]" .
  }
qed

theorem speedup_relative_to_first_pass_witness:
  "get_all_image_paths example_fs INPUT_DIR (OUTPUT_DIR_parallel example_cwd)
     = Inr example_found_parallel
   \<and> (8::real) = end_time example_sweep_clock 0 - start_time example_sweep_clock 0
   \<and> take 1 (table_rows (trace (main_parallel example_fs example_cwd example_env
         example_sweep_clock (\<lambda>k. [0, 1, 0]) WORKER_COUNTS)))
       = [(1, 8, 1)]
   \<and> table_rows (trace (main_parallel example_fs example_cwd example_env
         example_sweep_clock (\<lambda>k. [0, 1, 0]) WORKER_COUNTS))
       = [(1, 8, 1), (2, 4, 2), (4, 2, 4), (8, 2, 4)]"
proof -
  have b: "(8::real) = end_time example_sweep_clock 0 - start_time example_sweep_clock 0"
    by (simp add: example_sweep_clock_def)
  have d: "get_all_image_paths example_fs INPUT_DIR (OUTPUT_DIR_parallel example_cwd)
             = Inr (fst example_found_parallel, snd example_found_parallel)"
    by (simp add: example_discovery_parallel)
  have nz: "\<forall>k<4. end_time example_sweep_clock k \<noteq> start_time example_sweep_clock k"
    by (simp add: example_sweep_clock_def)
  note t = speedup_relative_to_first_pass [OF d b, of example_env "\<lambda>k. [0, 1, 0]"]
  have first: "take 1 (table_rows (trace (main_parallel example_fs example_cwd example_env
         example_sweep_clock (\<lambda>k. [0, 1, 0]) WORKER_COUNTS))) = [(1, 8, 1)]"
    using t by simp
  have "table_rows (trace (main_parallel example_fs example_cwd example_env
         example_sweep_clock (\<lambda>k. [0, 1, 0]) WORKER_COUNTS))
       = [(1, 8, 1),
          (2, end_time example_sweep_clock 1 - start_time example_sweep_clock 1,
           8 / (end_time example_sweep_clock 1 - start_time example_sweep_clock 1)),
          (4, end_time example_sweep_clock 2 - start_time example_sweep_clock 2,
           8 / (end_time example_sweep_clock 2 - start_time example_sweep_clock 2)),
          (8, end_time example_sweep_clock 3 - start_time example_sweep_clock 3,
           8 / (end_time example_sweep_clock 3 - start_time example_sweep_clock 3))]"
    using t nz by blast
  also have "\<dots> = [(1, 8, 1), (2, 4, 2), (4, 2, 4), (8, 2, 4)]"
    by (simp add: example_sweep_clock_def)
  finally show ?thesis
    using example_discovery_parallel b first by (intro conjI)
qed

end
